theory Spec2Isabelle
  imports Main
begin

section \<open>The datepicker directive: picker mode and value binding\<close>

text \<open>
  The values a \<^verbatim>\<open>pickerMode\<close> binding can hand to the setter at run time. The
  TypeScript annotation \<^verbatim>\<open>DatepickerMode | undefined\<close> is erased; the setter tests its
  argument for truthiness and compares it with \<^verbatim>\<open>===\<close>, so the model keeps the
  primitive values on which those two tests differ.
\<close>

datatype jsval = JUndefined | JNull | JString string | JNumber int | JBool bool

fun truthy :: "jsval \<Rightarrow> bool" where
  "truthy JUndefined = False"
| "truthy JNull = False"
| "truthy (JString s) = (s \<noteq> [])"
| "truthy (JNumber n) = (n \<noteq> 0)"
| "truthy (JBool b) = b"

text \<open>
  The declaration of \<^verbatim>\<open>DatepickerMode\<close> (components/datepicker) is not among the
  sources of this development; the setter only reads its five members, so they are a parameter.
\<close>

record DatepickerMode =
  Year :: jsval
  Month :: jsval
  Date :: jsval
  Datetime :: jsval
  Time :: jsval

definition members :: "DatepickerMode \<Rightarrow> jsval list" where
  "members M = [Year M, Month M, Date M, Datetime M, Time M]"

text \<open>The five configuration classes the setter instantiates, by class.\<close>

datatype CalendarConfig = YearConfig | MonthConfig | DateConfig | DatetimeConfig | TimeConfig

text \<open>The part of the popup's \<^verbatim>\<open>SuiDatepicker\<close> component that \<^verbatim>\<open>writeValue\<close> assigns.\<close>

record SuiDatepicker =
  picker_selectedDate :: "int option"

text \<open>
  The directive's own fields. \<^verbatim>\<open>emitted\<close> lists the values passed to
  \<^verbatim>\<open>onDateChange.emit\<close>, oldest first. \<^verbatim>\<open>componentInstance\<close> is the accessor inherited
  from the popup controller base class: the live component, if there is one. A date is its
  time value; \<^verbatim>\<open>undefined\<close> is \<open>None\<close>.
\<close>

record SuiDatepickerDirective =
  selectedDate_field :: "int option"
  mode_field :: jsval
  config :: "CalendarConfig option"
  emitted :: "int option list"
  componentInstance :: "SuiDatepicker option"

definition selectedDate :: "SuiDatepickerDirective \<Rightarrow> int option" where
  "selectedDate d = selectedDate_field d"

definition set_selectedDate :: "int option \<Rightarrow> SuiDatepickerDirective \<Rightarrow> SuiDatepickerDirective" where
  "set_selectedDate date d = d\<lparr>selectedDate_field := date, emitted := emitted d @ [date]\<rparr>"

definition mode :: "SuiDatepickerDirective \<Rightarrow> jsval" where
  "mode d = mode_field d"

text \<open>
  The setter: the truthiness test first, then the \<^verbatim>\<open>switch\<close>. A \<^verbatim>\<open>switch\<close> tries its
  \<^verbatim>\<open>case\<close> labels in source order (Year, Month, Date, Datetime, Time) and falls to
  \<^verbatim>\<open>default\<close>, which shares the body of the Date label, when none is strictly equal.
\<close>

definition set_mode :: "DatepickerMode \<Rightarrow> jsval \<Rightarrow> SuiDatepickerDirective \<Rightarrow> SuiDatepickerDirective" where
  "set_mode M v d =
     (let d1 = (if truthy v then d\<lparr>mode_field := v\<rparr> else d) in
      if v = Year M then d1\<lparr>config := Some YearConfig\<rparr>
      else if v = Month M then d1\<lparr>config := Some MonthConfig\<rparr>
      else if v = Date M then d1\<lparr>config := Some DateConfig\<rparr>
      else if v = Datetime M then d1\<lparr>config := Some DatetimeConfig\<rparr>
      else if v = Time M then d1\<lparr>config := Some TimeConfig\<rparr>
      else d1\<lparr>config := Some DateConfig\<rparr>)"

definition writeValue :: "int option \<Rightarrow> SuiDatepickerDirective \<Rightarrow> SuiDatepickerDirective" where
  "writeValue v d =
     (let d1 = set_selectedDate v d in
      case componentInstance d1 of
        None \<Rightarrow> d1
      | Some c \<Rightarrow> d1\<lparr>componentInstance := Some (c\<lparr>picker_selectedDate := v\<rparr>)\<rparr>)"

text \<open>Concrete values for evaluation: the members as lower-case strings, a fresh directive.\<close>

definition string_modes :: DatepickerMode where
  "string_modes = \<lparr>Year = JString ''year'', Month = JString ''month'', Date = JString ''date'',
     Datetime = JString ''datetime'', Time = JString ''time''\<rparr>"

definition fresh_directive :: SuiDatepickerDirective where
  "fresh_directive = \<lparr>selectedDate_field = None, mode_field = JUndefined, config = None,
     emitted = [], componentInstance = None\<rparr>"

section \<open>The popup base directive\<close>

subsection \<open>Configuration and the popup component\<close>

text \<open>
  Modelled from the spec: \<^verbatim>\<open>PopupTrigger\<close> and \<^verbatim>\<open>PopupConfig\<close> are declared in
  popup-config, which is not among the sources of this development. The directive names
  the members Hover, Click, OutsideClick and Focus and reads the fields trigger, delay and
  template; Manual is the fifth trigger mode the specification lists, the one no handler
  tests for. The delay is a number of milliseconds, the template a reference or absent.
\<close>

datatype PopupTrigger = Hover | Click | OutsideClick | Focus | Manual

record PopupConfig =
  trigger :: PopupTrigger
  delay :: nat
  template :: "nat option"

text \<open>
  \<^verbatim>\<open>SuiPopup\<close> is a collaborator whose class is not among the sources of this development. Its
  internal state is a type parameter \<open>'p\<close>, and the three members the directive calls on
  it, with the state of a newly constructed popup, are a parameter of the model.
\<close>

record 'p SuiPopup_class =
  constructed :: 'p
  popup_open :: "'p \<Rightarrow> 'p"
  popup_close :: "'p \<Rightarrow> 'p"
  isOpen :: "'p \<Rightarrow> bool"

text \<open>
  One created component (a \<^verbatim>\<open>ComponentRef<SuiPopup>\<close> with its instance): the members
  the directive assigns, the embedded views created at \<^verbatim>\<open>templateSibling\<close>, the number of
  handlers subscribed to \<^verbatim>\<open>onClose\<close>, the host element \<^verbatim>\<open>location.nativeElement\<close>,
  whether \<^verbatim>\<open>destroy()\<close> was called on the reference, and the popup's internal state.
\<close>

record 'p SuiPopup =
  popup_config :: "PopupConfig option"
  anchor :: "nat option"
  embeddedViews :: "nat list"
  onClose :: nat
  nativeElement :: nat
  destroyed :: bool
  internal :: 'p

subsection \<open>The document\<close>

text \<open>
  Elements are numbers and the document is the parent of each element.
  \<^verbatim>\<open>a.contains(t)\<close> holds when \<open>a\<close> is \<open>t\<close> or an ancestor of \<open>t\<close>.
\<close>

inductive contains :: "(nat \<Rightarrow> nat option) \<Rightarrow> nat \<Rightarrow> nat \<Rightarrow> bool"
  for par :: "nat \<Rightarrow> nat option" where
  contains_self: "contains par a a"
| contains_parent: "par t = Some p \<Longrightarrow> contains par a p \<Longrightarrow> contains par a t"

code_pred contains .

subsection \<open>State\<close>

text \<open>The three methods of \<^verbatim>\<open>IPopup\<close>, as entries of the call history.\<close>

datatype call = Open | Close | Toggle

text \<open>
  The directive's fields (\<^verbatim>\<open>_componentRef\<close>, \<^verbatim>\<open>_openingTimeout\<close>, \<^verbatim>\<open>_element\<close>,
  \<^verbatim>\<open>_popupConfig\<close>) and the part of the platform it acts on. A component reference is
  the position of the component in \<open>instances\<close>, the list of every component created so
  far, so two references are the same object exactly when they are equal. \<open>timers\<close> holds
  the pending timeouts as pairs of handle and due time; all of them run the callback of
  \<^verbatim>\<open>open\<close>, the only one this directive schedules. \<open>calls\<close> is a history variable: each
  entry into \<^verbatim>\<open>open()\<close>, \<^verbatim>\<open>close()\<close> and \<^verbatim>\<open>toggle()\<close>, oldest first.
\<close>

record 'p state =
  componentRef :: "nat option"
  openingTimeout :: "nat option"
  element :: nat
  popupConfig :: PopupConfig
  instances :: "'p SuiPopup list"
  timers :: "(nat \<times> nat) list"
  nextTimer :: nat
  now :: nat
  parent :: "nat \<Rightarrow> nat option"
  nextElement :: nat
  body :: nat
  calls :: "call list"

definition entered :: "call \<Rightarrow> 'p state \<Rightarrow> 'p state" where
  "entered c s = s\<lparr>calls := calls s @ [c]\<rparr>"

text \<open>\<^verbatim>\<open>clearTimeout\<close> of an undefined or no longer pending handle does nothing.\<close>

definition clearTimeout :: "nat option \<Rightarrow> 'p state \<Rightarrow> 'p state" where
  "clearTimeout h s =
     (case h of
        None \<Rightarrow> s
      | Some i \<Rightarrow> s\<lparr>timers := filter (\<lambda>x. fst x \<noteq> i) (timers s)\<rparr>)"

text \<open>\<^verbatim>\<open>window.setTimeout\<close> returns a handle never handed out before.\<close>

definition setTimeout :: "nat \<Rightarrow> 'p state \<Rightarrow> nat \<times> 'p state" where
  "setTimeout ms s =
     (nextTimer s, s\<lparr>timers := timers s @ [(nextTimer s, now s + ms)], nextTimer := Suc (nextTimer s)\<rparr>)"

definition update_popup :: "nat \<Rightarrow> ('p SuiPopup \<Rightarrow> 'p SuiPopup) \<Rightarrow> 'p state \<Rightarrow> 'p state" where
  "update_popup r f s = s\<lparr>instances := (instances s)[r := f (instances s ! r)]\<rparr>"

text \<open>
  The accessor \<^verbatim>\<open>_popup\<close> is \<^verbatim>\<open>this._componentRef!.instance\<close>: with no component reference
  the property access throws, which is \<open>None\<close> here.
\<close>

definition popup :: "'p state \<Rightarrow> nat option" where
  "popup s = componentRef s"

subsection \<open>open, its delayed callback, close and toggle\<close>

text \<open>
  \<^verbatim>\<open>createComponent\<close> makes the component and puts its host element into the view
  container, beside the anchor.
\<close>

definition createComponent :: "'p SuiPopup_class \<Rightarrow> 'p state \<Rightarrow> nat \<times> 'p state" where
  "createComponent P s =
     (length (instances s),
      s\<lparr>instances := instances s @
           [\<lparr>popup_config = None, anchor = None, embeddedViews = [], onClose = 0,
             nativeElement = nextElement s, destroyed = False, internal = constructed P\<rparr>],
        parent := (parent s)(nextElement s := parent s (element s)),
        nextElement := Suc (nextElement s)\<rparr>)"

text \<open>
  \<^verbatim>\<open>destroy()\<close> on a component reference removes its element from the document.
\<close>

definition destroy :: "nat \<Rightarrow> 'p state \<Rightarrow> 'p state" where
  "destroy r s =
     (update_popup r (\<lambda>p. p\<lparr>destroyed := True\<rparr>) s)
       \<lparr>parent := (parent s)(nativeElement (instances s ! r) := None)\<rparr>"

text \<open>The handler subscribed to \<^verbatim>\<open>onClose\<close>.\<close>

definition onClose_handler :: "'p state \<Rightarrow> 'p state" where
  "onClose_handler s =
     (case componentRef s of
        None \<Rightarrow> s
      | Some r \<Rightarrow> (destroy r s)\<lparr>componentRef := None\<rparr>)"

text \<open>
  The block guarded by \<^verbatim>\<open>!this._componentRef\<close>, statement by statement. Within it
  \<^verbatim>\<open>_popup\<close> is the component just assigned to \<^verbatim>\<open>_componentRef\<close>, here \<open>r\<close>.
\<close>

definition inject_template :: "nat \<Rightarrow> 'p state \<Rightarrow> 'p state" where
  "inject_template r s =
     (case template (popupConfig s) of
        None \<Rightarrow> s
      | Some t \<Rightarrow> update_popup r (\<lambda>p. p\<lparr>embeddedViews := embeddedViews p @ [t]\<rparr>) s)"

definition configure :: "nat \<Rightarrow> 'p state \<Rightarrow> 'p state" where
  "configure r s =
     update_popup r (\<lambda>p. p\<lparr>popup_config := Some (popupConfig s), anchor := Some (element s)\<rparr>) s"

definition move_to_body :: "nat \<Rightarrow> 'p state \<Rightarrow> 'p state" where
  "move_to_body r s = s\<lparr>parent := (parent s)(nativeElement (instances s ! r) \<mapsto> body s)\<rparr>"

definition subscribe_onClose :: "nat \<Rightarrow> 'p state \<Rightarrow> 'p state" where
  "subscribe_onClose r s = update_popup r (\<lambda>p. p\<lparr>onClose := Suc (onClose p)\<rparr>) s"

definition create_popup :: "'p SuiPopup_class \<Rightarrow> 'p state \<Rightarrow> 'p state" where
  "create_popup P s =
     (let (r, s0) = createComponent P s in
      subscribe_onClose r (move_to_body r (configure r (inject_template r
        (s0\<lparr>componentRef := Some r\<rparr>)))))"

text \<open>The function passed to \<^verbatim>\<open>setTimeout\<close>.\<close>

definition open_callback :: "'p SuiPopup_class \<Rightarrow> 'p state \<Rightarrow> 'p state option" where
  "open_callback P s =
     (let s1 = (if componentRef s = None then create_popup P s else s) in
      case popup s1 of
        None \<Rightarrow> None
      | Some r \<Rightarrow> Some (update_popup r (\<lambda>p. p\<lparr>internal := popup_open P (internal p)\<rparr>) s1))"

definition "open" :: "'p state \<Rightarrow> 'p state" where
  "open s =
     (let s1 = clearTimeout (openingTimeout s) (entered Open s);
          (h, s2) = setTimeout (delay (popupConfig s1)) s1
      in s2\<lparr>openingTimeout := Some h\<rparr>)"

definition close :: "'p SuiPopup_class \<Rightarrow> 'p state \<Rightarrow> 'p state option" where
  "close P s =
     (let s1 = clearTimeout (openingTimeout s) (entered Close s) in
      if componentRef s1 \<noteq> None then
        (case popup s1 of
           None \<Rightarrow> None
         | Some r \<Rightarrow> Some (update_popup r (\<lambda>p. p\<lparr>internal := popup_close P (internal p)\<rparr>) s1))
      else Some s1)"

text \<open>
  The second disjunct of the test reads \<^verbatim>\<open>isOpen\<close> through \<^verbatim>\<open>_popup\<close>; it is evaluated
  only when the first disjunct is false.
\<close>

definition toggle :: "'p SuiPopup_class \<Rightarrow> 'p state \<Rightarrow> 'p state option" where
  "toggle P s =
     (let s1 = entered Toggle s in
      if componentRef s1 = None then Some (open s1)
      else (case popup s1 of
              None \<Rightarrow> None
            | Some r \<Rightarrow>
                if \<not> isOpen P (internal (instances s1 ! r)) then Some (open s1)
                else close P s1))"

subsection \<open>Host listeners\<close>

definition onMouseEnter :: "'p SuiPopup_class \<Rightarrow> 'p state \<Rightarrow> 'p state option" where
  "onMouseEnter P s = (if trigger (popupConfig s) = Hover then Some (open s) else Some s)"

definition onMouseLeave :: "'p SuiPopup_class \<Rightarrow> 'p state \<Rightarrow> 'p state option" where
  "onMouseLeave P s = (if trigger (popupConfig s) = Hover then close P s else Some s)"

definition onClick :: "'p SuiPopup_class \<Rightarrow> 'p state \<Rightarrow> 'p state option" where
  "onClick P s =
     (if trigger (popupConfig s) = Click \<or> trigger (popupConfig s) = OutsideClick
      then toggle P s else Some s)"

definition onDocumentClick :: "'p SuiPopup_class \<Rightarrow> nat \<Rightarrow> 'p state \<Rightarrow> 'p state option" where
  "onDocumentClick P target s =
     (if componentRef s \<noteq> None \<and> trigger (popupConfig s) = OutsideClick then
        (if \<not> contains (parent s) (element s) target then close P s else Some s)
      else Some s)"

definition onFocus :: "'p SuiPopup_class \<Rightarrow> 'p state \<Rightarrow> 'p state option" where
  "onFocus P s = (if trigger (popupConfig s) = Focus then Some (open s) else Some s)"

definition onFocusOut :: "'p SuiPopup_class \<Rightarrow> 'p state \<Rightarrow> 'p state option" where
  "onFocusOut P s = (if trigger (popupConfig s) = Focus then close P s else Some s)"

subsection \<open>Events\<close>

text \<open>
  What can happen to a directive: a caller uses one of the three public methods, the
  browser delivers one of the listened events, time passes, a pending timeout that is due
  runs its callback, a popup emits \<^verbatim>\<open>onClose\<close>, which runs each subscribed handler, or
  the page renders a new element under an existing one (the content of a popup, for
  one). A step is \<open>None\<close> when the code throws.
\<close>

datatype interaction = MouseEnter | MouseLeave | AnchorClick | FocusIn | FocusOut

text \<open>The handler each \<^verbatim>\<open>@HostListener\<close> decorator binds to an event of the anchor.\<close>

fun listener :: "'p SuiPopup_class \<Rightarrow> interaction \<Rightarrow> 'p state \<Rightarrow> 'p state option" where
  "listener P MouseEnter = onMouseEnter P"
| "listener P MouseLeave = onMouseLeave P"
| "listener P AnchorClick = onClick P"
| "listener P FocusIn = onFocus P"
| "listener P FocusOut = onFocusOut P"

datatype event =
    CallOpen | CallClose | CallToggle
  | Anchor interaction | DocumentClick nat
  | Elapse nat | Fire nat | EmitClose nat | Render nat

definition fire :: "'p SuiPopup_class \<Rightarrow> nat \<Rightarrow> 'p state \<Rightarrow> 'p state option" where
  "fire P h s =
     (case map_of (timers s) h of
        None \<Rightarrow> Some s
      | Some due \<Rightarrow>
          if due \<le> now s
          then open_callback P (s\<lparr>timers := filter (\<lambda>x. fst x \<noteq> h) (timers s)\<rparr>)
          else Some s)"

definition render :: "nat \<Rightarrow> 'p state \<Rightarrow> 'p state" where
  "render p s =
     (if p < nextElement s
      then s\<lparr>parent := (parent s)(nextElement s \<mapsto> p), nextElement := Suc (nextElement s)\<rparr>
      else s)"

definition emit_onClose :: "nat \<Rightarrow> 'p state \<Rightarrow> 'p state" where
  "emit_onClose r s =
     (if r < length (instances s) then (onClose_handler ^^ onClose (instances s ! r)) s else s)"

fun step :: "'p SuiPopup_class \<Rightarrow> event \<Rightarrow> 'p state \<Rightarrow> 'p state option" where
  "step P CallOpen s = Some (open s)"
| "step P CallClose s = close P s"
| "step P CallToggle s = toggle P s"
| "step P (Anchor i) s = listener P i s"
| "step P (DocumentClick target) s = onDocumentClick P target s"
| "step P (Elapse ms) s = Some (s\<lparr>now := now s + ms\<rparr>)"
| "step P (Fire h) s = fire P h s"
| "step P (EmitClose r) s = Some (emit_onClose r s)"
| "step P (Render p) s = Some (render p s)"

fun run :: "'p SuiPopup_class \<Rightarrow> event list \<Rightarrow> 'p state \<Rightarrow> 'p state option" where
  "run P [] s = Some s"
| "run P (e # es) s = (case step P e s of None \<Rightarrow> None | Some s' \<Rightarrow> run P es s')"

text \<open>
  The state the constructor leaves: no component, no timeout handle, nothing pending.
  The anchor, the configuration and the document are the constructor's arguments and its
  surroundings; \<open>fresh\<close> is the first element number not in use.
\<close>

definition init :: "PopupConfig \<Rightarrow> nat \<Rightarrow> nat \<Rightarrow> (nat \<Rightarrow> nat option) \<Rightarrow> nat \<Rightarrow> 'p state" where
  "init cfg el bdy doc fresh =
     \<lparr>componentRef = None, openingTimeout = None, element = el, popupConfig = cfg,
      instances = [], timers = [], nextTimer = 0, now = 0, parent = doc,
      nextElement = fresh, body = bdy, calls = []\<rparr>"

subsection \<open>The trigger table of the specification\<close>

text \<open>
  The table of section 4.2, for the five events of the anchor: which of the three
  methods, if any, a trigger mode asks for.
\<close>

fun spec_trigger_policy :: "PopupTrigger \<Rightarrow> interaction \<Rightarrow> call option" where
  "spec_trigger_policy Hover MouseEnter = Some Open"
| "spec_trigger_policy Hover MouseLeave = Some Close"
| "spec_trigger_policy Click AnchorClick = Some Toggle"
| "spec_trigger_policy OutsideClick AnchorClick = Some Toggle"
| "spec_trigger_policy Focus FocusIn = Some Open"
| "spec_trigger_policy Focus FocusOut = Some Close"
| "spec_trigger_policy _ _ = None"

definition invoke :: "'p SuiPopup_class \<Rightarrow> call option \<Rightarrow> 'p state \<Rightarrow> 'p state option" where
  "invoke P c s =
     (case c of
        None \<Rightarrow> Some s
      | Some Open \<Rightarrow> Some (open s)
      | Some Close \<Rightarrow> close P s
      | Some Toggle \<Rightarrow> toggle P s)"

subsection \<open>Invariants of the reachable states\<close>

text \<open>Every pending timeout is the one whose handle the directive holds.\<close>

definition timers_owned :: "'p state \<Rightarrow> bool" where
  "timers_owned s \<longleftrightarrow> (\<forall>x\<in>set (timers s). openingTimeout s = Some (fst x))"

text \<open>
  The reference, when set, is a created component; a component is destroyed exactly when
  it is not the referenced one; every component has one \<^verbatim>\<open>onClose\<close> handler.
\<close>

definition refs_ok :: "'p state \<Rightarrow> bool" where
  "refs_ok s \<longleftrightarrow>
     (\<forall>r. componentRef s = Some r \<longrightarrow> r < length (instances s)) \<and>
     (\<forall>i<length (instances s). destroyed (instances s ! i) = (componentRef s \<noteq> Some i)) \<and>
     (\<forall>i<length (instances s). onClose (instances s ! i) = Suc 0)"

text \<open>
  The elements below \<open>fresh\<close> keep the parent the document \<open>doc\<close> gave them at
  construction; the elements of the created components are newer; the element of the
  referenced component is a child of the body.
\<close>

definition dom_ok :: "nat \<Rightarrow> (nat \<Rightarrow> nat option) \<Rightarrow> 'p state \<Rightarrow> bool" where
  "dom_ok fresh doc s \<longleftrightarrow>
     fresh \<le> nextElement s \<and>
     (\<forall>x<fresh. parent s x = doc x) \<and>
     (\<forall>i<length (instances s).
        fresh \<le> nativeElement (instances s ! i) \<and> nativeElement (instances s ! i) < nextElement s) \<and>
     (\<forall>r. componentRef s = Some r \<longrightarrow> r < length (instances s) \<and>
        parent s (nativeElement (instances s ! r)) = Some (body s))"

definition frame :: "PopupConfig \<Rightarrow> nat \<Rightarrow> nat \<Rightarrow> 'p state \<Rightarrow> bool" where
  "frame cfg a b s \<longleftrightarrow> popupConfig s = cfg \<and> element s = a \<and> body s = b"

subsection \<open>Concrete values for evaluation\<close>

text \<open>
  A popup whose internal state is its open flag; a page whose root is element 0, with the
  body 1 under it and the anchor 2 in the body; a directive constructed on that page; and
  the state a trace of events leaves it in.
\<close>

definition flag_popup :: "bool SuiPopup_class" where
  "flag_popup = \<lparr>constructed = False, popup_open = (\<lambda>_. True), popup_close = (\<lambda>_. False),
     isOpen = (\<lambda>b. b)\<rparr>"

definition page :: "nat \<Rightarrow> nat option" where
  "page x = (if x = 2 then Some 1 else if x = 1 then Some 0 else None)"

definition sample :: "PopupTrigger \<Rightarrow> nat \<Rightarrow> bool state" where
  "sample t ms = init \<lparr>trigger = t, delay = ms, template = None\<rparr> 2 1 page 3"

definition after :: "event list \<Rightarrow> bool state \<Rightarrow> bool state" where
  "after es s = the (run flag_popup es s)"

section \<open>Properties of the datepicker directive\<close>

text \<open>
  Claim C7, as amended. When the five members are pairwise distinct, passing a member to
  the mode setter sets \<open>config\<close> to the variant of the same name, and passing any other
  value, \<^verbatim>\<open>undefined\<close> included, sets it to the Date variant. The stored mode is left
  as it was exactly when the value passed is falsy; a truthy value is stored, whether or
  not it is one of the members.
\<close>

theorem set_mode_selects_config:
  assumes "distinct (members M)"
  shows "config (set_mode M (Year M) d) = Some YearConfig
     \<and> config (set_mode M (Month M) d) = Some MonthConfig
     \<and> config (set_mode M (Date M) d) = Some DateConfig
     \<and> config (set_mode M (Datetime M) d) = Some DatetimeConfig
     \<and> config (set_mode M (Time M) d) = Some TimeConfig
     \<and> (v \<notin> set (members M) \<longrightarrow> config (set_mode M v d) = Some DateConfig)
     \<and> mode (set_mode M v d) = (if truthy v then v else mode d)"
  using assms by (auto simp add: members_def set_mode_def mode_def Let_def)

theorem set_mode_selects_config_witness: "distinct (members string_modes)
     \<and> config (set_mode string_modes (Year string_modes) fresh_directive) = Some YearConfig
     \<and> config (set_mode string_modes (Month string_modes) fresh_directive) = Some MonthConfig
     \<and> config (set_mode string_modes (Date string_modes) fresh_directive) = Some DateConfig
     \<and> config (set_mode string_modes (Datetime string_modes) fresh_directive) = Some DatetimeConfig
     \<and> config (set_mode string_modes (Time string_modes) fresh_directive) = Some TimeConfig
     \<and> JUndefined \<notin> set (members string_modes) \<and> config (set_mode string_modes JUndefined fresh_directive) = Some DateConfig
     \<and> mode (set_mode string_modes JUndefined fresh_directive) = mode fresh_directive"
  using set_mode_selects_config[of string_modes fresh_directive JUndefined]
  by (simp add: members_def string_modes_def)

text \<open>
  Claim C7 as first stated, with every unrecognized value leaving the stored mode
  unchanged, fails: with the members declared as lower-case strings, the string \<open>foo\<close> is
  none of them, and passing it to the setter of a fresh directive replaces the stored mode.
\<close>

theorem set_mode_unrecognized_counterexample: "JString ''foo'' \<notin> set (members string_modes) \<and>
   mode (set_mode string_modes (JString ''foo'') fresh_directive) \<noteq> mode fresh_directive"
  by (simp add: members_def string_modes_def set_mode_def mode_def fresh_directive_def)

text \<open>
  Claim C8. For every date \<open>v\<close>, present or absent, after \<^verbatim>\<open>writeValue(v)\<close> the getter
  \<^verbatim>\<open>selectedDate\<close> returns \<open>v\<close>, exactly one change notification has been emitted,
  carrying \<open>v\<close>, and a component instance, if there is one, has \<open>v\<close> as its selected date
  (with no instance there is still none).
\<close>

theorem writeValue_sets_emits_pushes: "selectedDate (writeValue v d) = v \<and> emitted (writeValue v d) = emitted d @ [v]
   \<and> componentInstance (writeValue v d) = map_option (\<lambda>c. c\<lparr>picker_selectedDate := v\<rparr>) (componentInstance d)"
  by (simp add: writeValue_def set_selectedDate_def selectedDate_def Let_def split: option.splits)

theorem writeValue_sets_emits_pushes_witness:
  "selectedDate (writeValue (Some 86400000) fresh_directive) = Some 86400000
   \<and> emitted (writeValue (Some 86400000) fresh_directive) = [Some 86400000]
   \<and> componentInstance (writeValue None
        (fresh_directive\<lparr>componentInstance := Some \<lparr>picker_selectedDate = Some 5\<rparr>\<rparr>))
       = Some \<lparr>picker_selectedDate = None\<rparr>"
  using writeValue_sets_emits_pushes[of "Some 86400000" fresh_directive]
    writeValue_sets_emits_pushes[of None "fresh_directive\<lparr>componentInstance := Some \<lparr>picker_selectedDate = Some 5\<rparr>\<rparr>"]
  by (simp add: fresh_directive_def)

section \<open>Properties of the popup base directive\<close>

subsection \<open>What each method does to the state\<close>

lemma update_popup_fields [simp]:
  "componentRef (update_popup r f s) = componentRef s"
  "openingTimeout (update_popup r f s) = openingTimeout s"
  "element (update_popup r f s) = element s"
  "popupConfig (update_popup r f s) = popupConfig s"
  "timers (update_popup r f s) = timers s"
  "nextTimer (update_popup r f s) = nextTimer s"
  "now (update_popup r f s) = now s"
  "parent (update_popup r f s) = parent s"
  "nextElement (update_popup r f s) = nextElement s"
  "body (update_popup r f s) = body s"
  "calls (update_popup r f s) = calls s"
  "instances (update_popup r f s) = (instances s)[r := f (instances s ! r)]"
  by (simp_all add: update_popup_def)

lemma create_popup_instances:
  "instances (create_popup P s) = instances s @
     [\<lparr>popup_config = Some (popupConfig s), anchor = Some (element s),
       embeddedViews = (case template (popupConfig s) of None \<Rightarrow> [] | Some t \<Rightarrow> [t]),
       onClose = Suc 0, nativeElement = nextElement s, destroyed = False,
       internal = constructed P\<rparr>]"
  by (simp add: create_popup_def createComponent_def subscribe_onClose_def move_to_body_def
      configure_def inject_template_def split: option.splits)

lemma create_popup_fields:
  "componentRef (create_popup P s) = Some (length (instances s))"
  "openingTimeout (create_popup P s) = openingTimeout s"
  "element (create_popup P s) = element s"
  "popupConfig (create_popup P s) = popupConfig s"
  "timers (create_popup P s) = timers s"
  "nextTimer (create_popup P s) = nextTimer s"
  "now (create_popup P s) = now s"
  "parent (create_popup P s) = (parent s)(nextElement s \<mapsto> body s)"
  "nextElement (create_popup P s) = Suc (nextElement s)"
  "body (create_popup P s) = body s"
  "calls (create_popup P s) = calls s"
  by (simp_all add: create_popup_def createComponent_def subscribe_onClose_def move_to_body_def
      configure_def inject_template_def split: option.splits)

lemma entered_fields [simp]:
  "componentRef (entered c s) = componentRef s"
  "openingTimeout (entered c s) = openingTimeout s"
  "element (entered c s) = element s"
  "popupConfig (entered c s) = popupConfig s"
  "instances (entered c s) = instances s"
  "timers (entered c s) = timers s"
  "nextTimer (entered c s) = nextTimer s"
  "now (entered c s) = now s"
  "parent (entered c s) = parent s"
  "nextElement (entered c s) = nextElement s"
  "body (entered c s) = body s"
  "calls (entered c s) = calls s @ [c]"
  by (simp_all add: entered_def)

lemma clearTimeout_fields [simp]:
  "componentRef (clearTimeout h s) = componentRef s"
  "openingTimeout (clearTimeout h s) = openingTimeout s"
  "element (clearTimeout h s) = element s"
  "popupConfig (clearTimeout h s) = popupConfig s"
  "instances (clearTimeout h s) = instances s"
  "nextTimer (clearTimeout h s) = nextTimer s"
  "now (clearTimeout h s) = now s"
  "parent (clearTimeout h s) = parent s"
  "nextElement (clearTimeout h s) = nextElement s"
  "body (clearTimeout h s) = body s"
  "calls (clearTimeout h s) = calls s"
  by (simp_all add: clearTimeout_def split: option.splits)

lemma clearTimeout_timers: "set (timers (clearTimeout h s)) \<subseteq> set (timers s)"
  by (auto simp: clearTimeout_def split: option.splits)

lemma render_fields [simp]:
  "componentRef (render p s) = componentRef s"
  "openingTimeout (render p s) = openingTimeout s"
  "element (render p s) = element s"
  "popupConfig (render p s) = popupConfig s"
  "instances (render p s) = instances s"
  "timers (render p s) = timers s"
  "nextTimer (render p s) = nextTimer s"
  "now (render p s) = now s"
  "body (render p s) = body s"
  "calls (render p s) = calls s"
  by (simp_all add: render_def)

lemma clear_owned:
  assumes "timers_owned s" shows "timers (clearTimeout (openingTimeout s) s) = []"
proof (cases "openingTimeout s")
  case None
  with assms have "timers s = []" by (cases "timers s") (auto simp: timers_owned_def)
  with None show ?thesis by (simp add: clearTimeout_def)
next
  case (Some h)
  with assms show ?thesis
    by (auto simp: timers_owned_def clearTimeout_def filter_empty_conv)
qed

lemma open_eq:
  "open s = (clearTimeout (openingTimeout s) (entered Open s))
     \<lparr>timers := timers (clearTimeout (openingTimeout s) (entered Open s)) @
         [(nextTimer s, now s + delay (popupConfig s))],
      nextTimer := Suc (nextTimer s), openingTimeout := Some (nextTimer s)\<rparr>"
  by (simp add: open_def setTimeout_def Let_def)

lemma open_fields [simp]: "componentRef (open s) = componentRef s" "instances (open s) = instances s"
  "openingTimeout (open s) = Some (nextTimer s)" "calls (open s) = calls s @ [Open]"
  "parent (open s) = parent s" "element (open s) = element s" "popupConfig (open s) = popupConfig s"
  "now (open s) = now s" "body (open s) = body s" "nextElement (open s) = nextElement s"
  "nextTimer (open s) = Suc (nextTimer s)"
  by (simp_all add: open_eq)

lemma open_timers:
  assumes "timers_owned s"
  shows "timers (open s) = [(nextTimer s, now s + delay (popupConfig s))]"
proof -
  have "timers_owned (entered Open s)" using assms by (simp add: timers_owned_def)
  from clear_owned[OF this] show ?thesis by (simp add: open_eq)
qed

lemma close_eq:
  "close P s = Some (case componentRef s of
       None \<Rightarrow> clearTimeout (openingTimeout s) (entered Close s)
     | Some r \<Rightarrow> update_popup r (\<lambda>p. p\<lparr>internal := popup_close P (internal p)\<rparr>)
          (clearTimeout (openingTimeout s) (entered Close s)))"
  by (simp add: close_def Let_def popup_def split: option.splits)

lemma open_callback_eq:
  "open_callback P s = Some (case componentRef s of
       None \<Rightarrow> update_popup (length (instances s)) (\<lambda>p. p\<lparr>internal := popup_open P (internal p)\<rparr>)
          (create_popup P s)
     | Some r \<Rightarrow> update_popup r (\<lambda>p. p\<lparr>internal := popup_open P (internal p)\<rparr>) s)"
  by (simp add: open_callback_def Let_def popup_def create_popup_fields split: option.splits)

lemma toggle_eq:
  "toggle P s =
    (if componentRef s = None \<or> \<not> isOpen P (internal (instances s ! the (componentRef s)))
     then Some (open (entered Toggle s)) else close P (entered Toggle s))"
  by (simp add: toggle_def Let_def popup_def split: option.splits)

lemma open_entered: "open (entered c s) = (open s)\<lparr>calls := calls s @ [c, Open]\<rparr>"
  by (cases "openingTimeout s") (simp_all add: open_eq clearTimeout_def entered_def)

lemma close_entered:
  "close P (entered c s) = map_option (\<lambda>t. t\<lparr>calls := calls s @ [c, Close]\<rparr>) (close P s)"
  by (cases "openingTimeout s"; cases "componentRef s")
     (simp_all add: close_eq clearTimeout_def entered_def update_popup_def)

lemma onClose_handler_eq:
  "onClose_handler s = (case componentRef s of None \<Rightarrow> s
     | Some r \<Rightarrow> s\<lparr>instances := (instances s)[r := (instances s ! r)\<lparr>destroyed := True\<rparr>],
          parent := (parent s)(nativeElement (instances s ! r) := None),
          componentRef := None\<rparr>)"
  by (simp add: onClose_handler_def destroy_def update_popup_def split: option.splits)

lemma onClose_handler_idle: "componentRef s = None \<Longrightarrow> onClose_handler s = s"
  by (simp add: onClose_handler_def)

lemma onClose_handler_ref [simp]: "componentRef (onClose_handler s) = None"
  by (simp add: onClose_handler_eq split: option.splits)

lemma onClose_handler_funpow: "(onClose_handler ^^ Suc n) s = onClose_handler s"
proof (induction n)
  case (Suc n)
  have "(onClose_handler ^^ Suc (Suc n)) s = onClose_handler ((onClose_handler ^^ Suc n) s)" by simp
  also have "\<dots> = onClose_handler (onClose_handler s)" using Suc by simp
  also have "\<dots> = onClose_handler s" by (simp add: onClose_handler_idle)
  finally show ?case .
qed simp

lemma emit_onClose_eq:
  "emit_onClose r s = (if r < length (instances s) \<and> 0 < onClose (instances s ! r)
     then onClose_handler s else s)"
proof (cases "onClose (instances s ! r)")
  case 0
  then show ?thesis by (simp add: emit_onClose_def)
next
  case (Suc n)
  then show ?thesis using onClose_handler_funpow[of n s] by (simp add: emit_onClose_def del: funpow.simps)
qed

lemma fire_eq:
  "fire P h s = (case map_of (timers s) h of None \<Rightarrow> Some s
     | Some due \<Rightarrow> if due \<le> now s
         then open_callback P (s\<lparr>timers := filter (\<lambda>x. fst x \<noteq> h) (timers s)\<rparr>) else Some s)"
  by (simp add: fire_def)

subsection \<open>No step throws\<close>

lemma close_total: "\<exists>s'. close P s = Some s'"
  by (simp add: close_eq)

lemma open_callback_total: "\<exists>s'. open_callback P s = Some s'"
  by (simp add: open_callback_eq)

lemma toggle_total: "\<exists>s'. toggle P s = Some s'"
  by (simp add: toggle_eq close_eq)

lemma step_total: "\<exists>s'. step P e s = Some s'"
proof (cases e)
  case (Anchor i)
  then show ?thesis
    by (cases i) (simp_all add: onMouseEnter_def onMouseLeave_def onClick_def onFocus_def
        onFocusOut_def close_total toggle_total)
next
  case (DocumentClick t)
  then show ?thesis by (simp add: onDocumentClick_def close_total)
next
  case (Fire h)
  then show ?thesis by (simp add: fire_eq open_callback_total split: option.splits)
qed (simp_all add: close_total toggle_total)

lemma run_total: "\<exists>s'. run P es s = Some s'"
proof (induction es arbitrary: s)
  case (Cons e es)
  obtain s1 where "step P e s = Some s1" using step_total by blast
  then show ?case using Cons[of s1] by simp
qed simp

subsection \<open>The call history\<close>

lemma close_calls: "close P s = Some s' \<Longrightarrow> calls s' = calls s @ [Close]"
  by (auto simp: close_eq split: option.splits)

lemma toggle_calls:
  "toggle P s = Some s' \<Longrightarrow> calls s' = calls s @ [Toggle, Open] \<or> calls s' = calls s @ [Toggle, Close]"
  using close_calls[of P "entered Toggle s" s'] by (auto simp: toggle_eq split: if_splits)

lemma open_callback_calls: "open_callback P s = Some s' \<Longrightarrow> calls s' = calls s"
  by (auto simp: open_callback_eq create_popup_fields split: option.splits)

lemma onClose_handler_calls: "calls (onClose_handler s) = calls s"
  by (simp add: onClose_handler_eq split: option.splits)

lemma step_calls:
  assumes "step P e s = Some s'"
  shows "\<exists>cs. calls s' = calls s @ cs"
proof (cases e)
  case (Anchor i)
  with assms show ?thesis using close_calls[of P s s'] toggle_calls[of P s s']
    by (cases i) (auto simp: onMouseEnter_def onMouseLeave_def onClick_def onFocus_def onFocusOut_def
        split: if_splits)
next
  case (DocumentClick t)
  with assms show ?thesis using close_calls[of P s s'] by (auto simp: onDocumentClick_def split: if_splits)
next
  case (Fire h)
  with assms show ?thesis
    using open_callback_calls[of P "s\<lparr>timers := filter (\<lambda>x. fst x \<noteq> h) (timers s)\<rparr>" s']
    by (auto simp: fire_eq split: option.splits if_splits)
next
  case (EmitClose r)
  with assms show ?thesis by (auto simp: emit_onClose_eq onClose_handler_calls)
next
  case CallToggle
  with assms show ?thesis using toggle_calls[of P s s'] by auto
next
  case CallClose
  with assms show ?thesis using close_calls[of P s s'] by auto
qed (use assms in auto)

lemma run_calls:
  "run P es s = Some s' \<Longrightarrow> \<exists>cs. calls s' = calls s @ cs"
proof (induction es arbitrary: s)
  case (Cons e es)
  then obtain s1 where 1: "step P e s = Some s1" and 2: "run P es s1 = Some s'"
    by (auto split: option.splits)
  from step_calls[OF 1] Cons.IH[OF 2] show ?case by auto
qed simp

lemma run_append:
  "run P (xs @ ys) s = (case run P xs s of None \<Rightarrow> None | Some s' \<Rightarrow> run P ys s')"
  by (induction xs arbitrary: s) (auto split: option.splits)

lemma run_Elapse: "run P (map Elapse ds) s = Some (s\<lparr>now := now s + sum_list ds\<rparr>)"
  by (induction ds arbitrary: s) (simp_all add: add.assoc)

subsection \<open>Invariants\<close>

lemma step_preserves:
  assumes o: "\<And>s. I s \<Longrightarrow> I (open s)"
    and c: "\<And>s s'. I s \<Longrightarrow> close P s = Some s' \<Longrightarrow> I s'"
    and cb: "\<And>s s'. I s \<Longrightarrow> open_callback P s = Some s' \<Longrightarrow> I s'"
    and h: "\<And>s. I s \<Longrightarrow> I (onClose_handler s)"
    and en: "\<And>s. I s \<Longrightarrow> I (entered Toggle s)"
    and ti: "\<And>s h. I s \<Longrightarrow> I (s\<lparr>timers := filter (\<lambda>x. fst x \<noteq> h) (timers s)\<rparr>)"
    and nw: "\<And>s n. I s \<Longrightarrow> I (s\<lparr>now := n\<rparr>)"
    and rn: "\<And>s p. I s \<Longrightarrow> I (render p s)"
    and s: "I s" and st: "step P e s = Some s'"
  shows "I s'"
proof -
  have tg: "I t'" if "I t" "toggle P t = Some t'" for t t'
    using that o[OF en[OF that(1)]] c[OF en[OF that(1)]]
    by (auto simp: toggle_eq split: if_splits)
  show ?thesis
  proof (cases e)
    case CallOpen
    with s st o show ?thesis by auto
  next
    case CallClose
    with s st c show ?thesis by auto
  next
    case CallToggle
    with s st tg show ?thesis by auto
  next
    case (Anchor i)
    with s st o[OF s] c[OF s] tg[OF s] show ?thesis
      by (cases i) (auto simp: onMouseEnter_def onMouseLeave_def onClick_def onFocus_def onFocusOut_def
          split: if_splits)
  next
    case (DocumentClick t)
    with s st c[OF s] show ?thesis by (auto simp: onDocumentClick_def split: if_splits)
  next
    case (Elapse ms)
    with s st nw show ?thesis by auto
  next
    case (Fire k)
    with s st cb[OF ti[OF s, of k]] show ?thesis
      by (auto simp: fire_eq split: option.splits if_splits)
  next
    case (EmitClose r)
    with s st h[OF s] show ?thesis by (auto simp: emit_onClose_eq split: if_splits)
  next
    case (Render p)
    with s st rn show ?thesis by auto
  qed
qed

lemma run_preserves:
  assumes "\<And>e s s'. I s \<Longrightarrow> step P e s = Some s' \<Longrightarrow> I s'"
  shows "I s \<Longrightarrow> run P es s = Some s' \<Longrightarrow> I s'"
proof (induction es arbitrary: s)
  case Nil
  then show ?case by simp
next
  case (Cons e es)
  then show ?case using assms by (auto split: option.splits)
qed

lemma timers_owned_open: "timers_owned s \<Longrightarrow> timers_owned (open s)"
  using open_timers[of s] by (simp add: timers_owned_def)

lemma timers_owned_clear: "timers_owned s \<Longrightarrow> timers_owned (clearTimeout h s)"
  using clearTimeout_timers[of h s] by (auto simp: timers_owned_def)

lemma timers_owned_cong:
  "timers_owned s \<Longrightarrow> set (timers s') \<subseteq> set (timers s) \<Longrightarrow> openingTimeout s' = openingTimeout s
    \<Longrightarrow> timers_owned s'"
  by (auto simp: timers_owned_def)

lemma timers_owned_close: "timers_owned s \<Longrightarrow> close P s = Some s' \<Longrightarrow> timers_owned s'"
  by (rule timers_owned_cong[of s])
     (use clearTimeout_timers[of "openingTimeout s" "entered Close s"] in
      \<open>auto simp: close_eq split: option.splits\<close>)

lemma timers_owned_callback: "timers_owned s \<Longrightarrow> open_callback P s = Some s' \<Longrightarrow> timers_owned s'"
  by (rule timers_owned_cong[of s]) (auto simp: open_callback_eq create_popup_fields split: option.splits)

lemma timers_owned_handler: "timers_owned s \<Longrightarrow> timers_owned (onClose_handler s)"
  by (rule timers_owned_cong[of s]) (auto simp: onClose_handler_eq split: option.splits)

lemma timers_owned_step: "timers_owned s \<Longrightarrow> step P e s = Some s' \<Longrightarrow> timers_owned s'"
proof (erule step_preserves[where I = timers_owned and P = P and e = e, rotated -2])
  show "\<And>s. timers_owned s \<Longrightarrow> timers_owned (open s)" by (rule timers_owned_open)
  show "\<And>s s'. timers_owned s \<Longrightarrow> close P s = Some s' \<Longrightarrow> timers_owned s'" by (rule timers_owned_close)
  show "\<And>s s'. timers_owned s \<Longrightarrow> open_callback P s = Some s' \<Longrightarrow> timers_owned s'"
    by (rule timers_owned_callback)
  show "\<And>s. timers_owned s \<Longrightarrow> timers_owned (onClose_handler s)" by (rule timers_owned_handler)
  show "\<And>s. timers_owned s \<Longrightarrow> timers_owned (entered Toggle s)" by (simp add: timers_owned_def)
  show "\<And>s h. timers_owned s \<Longrightarrow> timers_owned (s\<lparr>timers := filter (\<lambda>x. fst x \<noteq> h) (timers s)\<rparr>)"
    by (simp add: timers_owned_def)
  show "\<And>s n. timers_owned s \<Longrightarrow> timers_owned (s\<lparr>now := n\<rparr>)" by (simp add: timers_owned_def)
  show "\<And>s p. timers_owned s \<Longrightarrow> timers_owned (render p s)" by (simp add: timers_owned_def render_def)
qed

lemma nth_update_at:
  "i < length xs \<Longrightarrow> xs[r := f (xs ! r)] ! i = (if r = i then f (xs ! i) else xs ! i)"
  by (cases "r = i") simp_all

lemma refs_ok_cong:
  "refs_ok s \<Longrightarrow> componentRef s' = componentRef s \<Longrightarrow> instances s' = instances s \<Longrightarrow> refs_ok s'"
  by (simp add: refs_ok_def)

lemma refs_ok_update:
  assumes "refs_ok s" and "\<And>p. destroyed (f p) = destroyed p" and "\<And>p. onClose (f p) = onClose p"
  shows "refs_ok (update_popup r f s)"
  using assms unfolding refs_ok_def by (simp add: nth_update_at)

lemma refs_ok_open: "refs_ok s \<Longrightarrow> refs_ok (open s)"
  by (rule refs_ok_cong[of s]) simp_all

lemma refs_ok_close:
  assumes "refs_ok s" and "close P s = Some s'" shows "refs_ok s'"
proof -
  let ?s0 = "clearTimeout (openingTimeout s) (entered Close s)"
  have 0: "refs_ok ?s0" by (rule refs_ok_cong[OF assms(1)]) simp_all
  show ?thesis
  proof (cases "componentRef s")
    case None
    with assms(2) have "s' = ?s0" by (simp add: close_eq)
    with 0 show ?thesis by simp
  next
    case (Some r)
    with assms(2) have "s' = update_popup r (\<lambda>p. p\<lparr>internal := popup_close P (internal p)\<rparr>) ?s0"
      by (simp add: close_eq)
    then show ?thesis using refs_ok_update[OF 0, of "\<lambda>p. p\<lparr>internal := popup_close P (internal p)\<rparr>" r]
      by simp
  qed
qed

lemma refs_ok_create:
  assumes "refs_ok s" and "componentRef s = None" shows "refs_ok (create_popup P s)"
  using assms unfolding refs_ok_def
  by (simp add: create_popup_fields create_popup_instances nth_append less_Suc_eq)

lemma refs_ok_callback:
  assumes "refs_ok s" and "open_callback P s = Some s'" shows "refs_ok s'"
proof (cases "componentRef s")
  case None
  with assms(2) have "s' = update_popup (length (instances s)) (\<lambda>p. p\<lparr>internal := popup_open P (internal p)\<rparr>) (create_popup P s)"
    by (simp add: open_callback_eq)
  then show ?thesis
    using refs_ok_update[OF refs_ok_create[OF assms(1) None, of P], of "\<lambda>p. p\<lparr>internal := popup_open P (internal p)\<rparr>" "length (instances s)"]
    by simp
next
  case (Some r)
  with assms(2) have "s' = update_popup r (\<lambda>p. p\<lparr>internal := popup_open P (internal p)\<rparr>) s"
    by (simp add: open_callback_eq)
  then show ?thesis using refs_ok_update[OF assms(1), of "\<lambda>p. p\<lparr>internal := popup_open P (internal p)\<rparr>" r]
    by simp
qed

lemma refs_ok_handler: "refs_ok s \<Longrightarrow> refs_ok (onClose_handler s)"
  unfolding refs_ok_def
  by (cases "componentRef s") (simp_all add: onClose_handler_eq nth_list_update)

lemma refs_ok_step: "refs_ok s \<Longrightarrow> step P e s = Some s' \<Longrightarrow> refs_ok s'"
proof (erule step_preserves[where I = refs_ok and P = P and e = e, rotated -2])
  show "\<And>s. refs_ok s \<Longrightarrow> refs_ok (open s)" by (rule refs_ok_open)
  show "\<And>s s'. refs_ok s \<Longrightarrow> close P s = Some s' \<Longrightarrow> refs_ok s'" by (rule refs_ok_close)
  show "\<And>s s'. refs_ok s \<Longrightarrow> open_callback P s = Some s' \<Longrightarrow> refs_ok s'"
    by (rule refs_ok_callback)
  show "\<And>s. refs_ok s \<Longrightarrow> refs_ok (onClose_handler s)" by (rule refs_ok_handler)
  show "\<And>s. refs_ok s \<Longrightarrow> refs_ok (entered Toggle s)" by (simp add: refs_ok_def)
  show "\<And>s h. refs_ok s \<Longrightarrow> refs_ok (s\<lparr>timers := filter (\<lambda>x. fst x \<noteq> h) (timers s)\<rparr>)"
    by (simp add: refs_ok_def)
  show "\<And>s n. refs_ok s \<Longrightarrow> refs_ok (s\<lparr>now := n\<rparr>)" by (simp add: refs_ok_def)
  show "\<And>s p. refs_ok s \<Longrightarrow> refs_ok (render p s)" by (simp add: refs_ok_def render_def)
qed

lemma init_ok: "timers_owned (init cfg a b doc fresh)" "refs_ok (init cfg a b doc fresh)"
  by (simp_all add: init_def timers_owned_def refs_ok_def)

lemma reachable_ok:
  assumes "run P es (init cfg a b doc fresh) = Some s"
  shows "timers_owned s" "refs_ok s"
  using run_preserves[where I = timers_owned, OF timers_owned_step init_ok(1) assms]
        run_preserves[where I = refs_ok, OF refs_ok_step init_ok(2) assms]
  by simp_all

lemma alive_unique:
  assumes "refs_ok s" "i < length (instances s)" "j < length (instances s)"
    "\<not> destroyed (instances s ! i)" "\<not> destroyed (instances s ! j)"
  shows "i = j"
proof -
  from assms have "componentRef s = Some i" "componentRef s = Some j" by (simp_all add: refs_ok_def)
  then show ?thesis by simp
qed

lemma dom_ok_cong:
  assumes "dom_ok fresh doc s" "componentRef s' = componentRef s" "instances s' = instances s"
    "parent s' = parent s" "nextElement s' = nextElement s" "body s' = body s"
  shows "dom_ok fresh doc s'"
  using assms by (simp add: dom_ok_def)

lemma dom_ok_update:
  assumes "dom_ok fresh doc s" and "\<And>p. nativeElement (f p) = nativeElement p"
  shows "dom_ok fresh doc (update_popup r f s)"
  using assms unfolding dom_ok_def by (simp add: nth_update_at)

lemma dom_ok_open: "dom_ok fresh doc s \<Longrightarrow> dom_ok fresh doc (open s)"
  by (rule dom_ok_cong[of fresh doc s]) simp_all

lemma dom_ok_close:
  assumes "dom_ok fresh doc s" and "close P s = Some s'" shows "dom_ok fresh doc s'"
proof -
  let ?s0 = "clearTimeout (openingTimeout s) (entered Close s)"
  have 0: "dom_ok fresh doc ?s0" by (rule dom_ok_cong[OF assms(1)]) simp_all
  show ?thesis
  proof (cases "componentRef s")
    case None
    with assms(2) 0 show ?thesis by (simp add: close_eq)
  next
    case (Some r)
    with assms(2) have "s' = update_popup r (\<lambda>p. p\<lparr>internal := popup_close P (internal p)\<rparr>) ?s0"
      by (simp add: close_eq)
    then show ?thesis
      using dom_ok_update[OF 0, of "\<lambda>p. p\<lparr>internal := popup_close P (internal p)\<rparr>" r] by simp
  qed
qed

lemma dom_ok_create:
  assumes "dom_ok fresh doc s" and "componentRef s = None"
  shows "dom_ok fresh doc (create_popup P s)"
  using assms unfolding dom_ok_def
  by (auto simp: create_popup_fields create_popup_instances nth_append less_Suc_eq)

lemma dom_ok_callback:
  assumes "dom_ok fresh doc s" and "open_callback P s = Some s'" shows "dom_ok fresh doc s'"
proof (cases "componentRef s")
  case None
  with assms(2) have "s' = update_popup (length (instances s))
      (\<lambda>p. p\<lparr>internal := popup_open P (internal p)\<rparr>) (create_popup P s)"
    by (simp add: open_callback_eq)
  then show ?thesis
    using dom_ok_update[OF dom_ok_create[OF assms(1) None, of P],
        of "\<lambda>p. p\<lparr>internal := popup_open P (internal p)\<rparr>" "length (instances s)"]
    by simp
next
  case (Some r)
  with assms(2) have "s' = update_popup r (\<lambda>p. p\<lparr>internal := popup_open P (internal p)\<rparr>) s"
    by (simp add: open_callback_eq)
  then show ?thesis
    using dom_ok_update[OF assms(1), of "\<lambda>p. p\<lparr>internal := popup_open P (internal p)\<rparr>" r] by simp
qed

lemma dom_ok_handler: "dom_ok fresh doc s \<Longrightarrow> dom_ok fresh doc (onClose_handler s)"
  unfolding dom_ok_def
  by (cases "componentRef s") (auto simp: onClose_handler_eq nth_update_at)

lemma dom_ok_render: "dom_ok fresh doc s \<Longrightarrow> dom_ok fresh doc (render p s)"
  unfolding dom_ok_def by (auto simp: render_def less_Suc_eq)

lemma dom_ok_step: "dom_ok fresh doc s \<Longrightarrow> step P e s = Some s' \<Longrightarrow> dom_ok fresh doc s'"
proof (erule step_preserves[where I = "dom_ok fresh doc" and P = P and e = e, rotated -2])
  show "\<And>s. dom_ok fresh doc s \<Longrightarrow> dom_ok fresh doc (open s)" by (rule dom_ok_open)
  show "\<And>s s'. dom_ok fresh doc s \<Longrightarrow> close P s = Some s' \<Longrightarrow> dom_ok fresh doc s'"
    by (rule dom_ok_close)
  show "\<And>s s'. dom_ok fresh doc s \<Longrightarrow> open_callback P s = Some s' \<Longrightarrow> dom_ok fresh doc s'"
    by (rule dom_ok_callback)
  show "\<And>s. dom_ok fresh doc s \<Longrightarrow> dom_ok fresh doc (onClose_handler s)" by (rule dom_ok_handler)
  show "\<And>s. dom_ok fresh doc s \<Longrightarrow> dom_ok fresh doc (entered Toggle s)"
    by (simp add: dom_ok_def)
  show "\<And>s h. dom_ok fresh doc s \<Longrightarrow>
      dom_ok fresh doc (s\<lparr>timers := filter (\<lambda>x. fst x \<noteq> h) (timers s)\<rparr>)"
    by (simp add: dom_ok_def)
  show "\<And>s n. dom_ok fresh doc s \<Longrightarrow> dom_ok fresh doc (s\<lparr>now := n\<rparr>)" by (simp add: dom_ok_def)
  show "\<And>s p. dom_ok fresh doc s \<Longrightarrow> dom_ok fresh doc (render p s)" by (rule dom_ok_render)
qed

lemma frame_step: "frame cfg a b s \<Longrightarrow> step P e s = Some s' \<Longrightarrow> frame cfg a b s'"
proof (erule step_preserves[where I = "frame cfg a b" and P = P and e = e, rotated -2])
  show "\<And>s. frame cfg a b s \<Longrightarrow> frame cfg a b (open s)" by (simp add: frame_def)
  show "\<And>s s'. frame cfg a b s \<Longrightarrow> close P s = Some s' \<Longrightarrow> frame cfg a b s'"
    by (auto simp: frame_def close_eq split: option.splits)
  show "\<And>s s'. frame cfg a b s \<Longrightarrow> open_callback P s = Some s' \<Longrightarrow> frame cfg a b s'"
    by (auto simp: frame_def open_callback_eq create_popup_fields split: option.splits)
  show "\<And>s. frame cfg a b s \<Longrightarrow> frame cfg a b (onClose_handler s)"
    by (auto simp: frame_def onClose_handler_eq split: option.splits)
  show "\<And>s. frame cfg a b s \<Longrightarrow> frame cfg a b (entered Toggle s)" by (simp add: frame_def)
  show "\<And>s h. frame cfg a b s \<Longrightarrow> frame cfg a b (s\<lparr>timers := filter (\<lambda>x. fst x \<noteq> h) (timers s)\<rparr>)"
    by (simp add: frame_def)
  show "\<And>s n. frame cfg a b s \<Longrightarrow> frame cfg a b (s\<lparr>now := n\<rparr>)" by (simp add: frame_def)
  show "\<And>s p. frame cfg a b s \<Longrightarrow> frame cfg a b (render p s)" by (simp add: frame_def)
qed

lemma reachable_dom:
  assumes "run P es (init cfg a b doc fresh) = Some s"
  shows "dom_ok fresh doc s" "frame cfg a b s"
proof -
  have "dom_ok fresh doc (init cfg a b doc fresh :: 'a state)" by (simp add: dom_ok_def init_def)
  from run_preserves[where I = "dom_ok fresh doc", OF dom_ok_step this assms]
  show "dom_ok fresh doc s" by simp
  have "frame cfg a b (init cfg a b doc fresh :: 'a state)" by (simp add: frame_def init_def)
  from run_preserves[where I = "frame cfg a b", OF frame_step this assms]
  show "frame cfg a b s" by simp
qed

lemma contains_linear:
  "contains par x t \<Longrightarrow> contains par y t \<Longrightarrow> contains par x y \<or> contains par y x"
proof (induction arbitrary: y rule: contains.induct)
  case (contains_self a)
  then show ?case by simp
next
  case (contains_parent t p a)
  from contains_parent.prems show ?case
  proof (cases rule: contains.cases)
    case contains_self
    then show ?thesis using contains_parent.hyps contains.contains_parent by blast
  next
    case (contains_parent q)
    with contains_parent.hyps(1) have "q = p" by simp
    with contains_parent show ?thesis using contains_parent.IH by blast
  qed
qed

lemma contains_old:
  assumes cl: "\<forall>x<fresh. \<forall>y. doc x = Some y \<longrightarrow> y < fresh"
    and same: "\<forall>x<fresh. par x = doc x"
  shows "contains par x t \<Longrightarrow> t < fresh \<Longrightarrow> x < fresh \<and> contains doc x t"
proof (induction rule: contains.induct)
  case (contains_self a)
  then show ?case by (simp add: contains.contains_self)
next
  case (contains_parent t p a)
  from contains_parent.hyps(1) contains_parent.prems same have d: "doc t = Some p" by simp
  with cl contains_parent.prems have "p < fresh" by blast
  with contains_parent.IH have "a < fresh \<and> contains doc a p" by simp
  with d show ?case using contains.contains_parent by blast
qed

subsection \<open>After a close with nothing pending\<close>

lemma close_quiet:
  assumes "timers s = []" "close P s = Some s'"
  shows "timers s' = [] \<and> length (instances s') = length (instances s)"
  using assms by (cases "openingTimeout s"; cases "componentRef s") (auto simp: close_eq clearTimeout_def)

lemma onClose_handler_quiet:
  "timers (onClose_handler s) = timers s \<and> length (instances (onClose_handler s)) = length (instances s)"
  by (simp add: onClose_handler_eq split: option.splits)

lemma quiet_step:
  assumes t: "timers s = []" and st: "step P e s = Some s'"
    and no: "Open \<notin> set (drop (length (calls s)) (calls s'))"
  shows "timers s' = [] \<and> length (instances s') = length (instances s)"
proof -
  have tg: ?thesis if "toggle P s = Some s'"
  proof -
    from no toggle_calls[OF that] have "calls s' = calls s @ [Toggle, Close]" by auto
    with that have "close P (entered Toggle s) = Some s'"
      by (auto simp: toggle_eq split: if_splits)
    from close_quiet[OF _ this] t show ?thesis by simp
  qed
  show ?thesis
  proof (cases e)
    case CallOpen
    with st no show ?thesis by auto
  next
    case CallClose
    with st close_quiet[OF t] show ?thesis by auto
  next
    case CallToggle
    with st tg show ?thesis by auto
  next
    case (Anchor i)
    with st no t close_quiet[OF t] tg show ?thesis
      by (cases i) (auto simp: onMouseEnter_def onMouseLeave_def onClick_def onFocus_def onFocusOut_def
          split: if_splits)
  next
    case (DocumentClick x)
    with st t close_quiet[OF t] show ?thesis by (auto simp: onDocumentClick_def split: if_splits)
  next
    case (Elapse ms)
    with st t show ?thesis by auto
  next
    case (Fire h)
    with st t show ?thesis by (auto simp: fire_eq)
  next
    case (EmitClose r)
    with st t show ?thesis by (auto simp: emit_onClose_eq onClose_handler_quiet)
  next
    case (Render p)
    with st t show ?thesis by auto
  qed
qed

lemma quiet_run:
  assumes "timers s = []" and "run P es s = Some s'"
    and "Open \<notin> set (drop (length (calls s)) (calls s'))"
  shows "timers s' = [] \<and> length (instances s') = length (instances s)"
  using assms
proof (induction es arbitrary: s)
  case Nil
  then show ?case by simp
next
  case (Cons e es)
  then obtain s1 where 1: "step P e s = Some s1" and 2: "run P es s1 = Some s'"
    by (auto split: option.splits)
  from step_calls[OF 1] obtain c1 where c1: "calls s1 = calls s @ c1" by blast
  from run_calls[OF 2] obtain c2 where c2: "calls s' = calls s1 @ c2" by blast
  from Cons.prems(3) c1 c2 have n1: "Open \<notin> set (drop (length (calls s)) (calls s1))"
    and n2: "Open \<notin> set (drop (length (calls s1)) (calls s'))" by auto
  from quiet_step[OF Cons.prems(1) 1 n1] Cons.IH[OF _ 2 n2] show ?case by simp
qed

subsection \<open>Only the callback creates components\<close>

lemma close_length: "close P s = Some s' \<Longrightarrow> length (instances s') = length (instances s)"
  by (cases "componentRef s") (auto simp: close_eq)

lemma toggle_length: "toggle P s = Some s' \<Longrightarrow> length (instances s') = length (instances s)"
  using close_length[of P "entered Toggle s" s'] by (auto simp: toggle_eq split: if_splits)

lemma step_length:
  assumes "step P e s = Some s'" and "\<forall>h. e \<noteq> Fire h"
  shows "length (instances s') = length (instances s)"
proof (cases e)
  case (Anchor i)
  with assms(1) close_length[of P s s'] toggle_length[of P s s'] show ?thesis
    by (cases i) (auto simp: onMouseEnter_def onMouseLeave_def onClick_def onFocus_def onFocusOut_def
        split: if_splits)
next
  case (DocumentClick t)
  with assms(1) close_length[of P s s'] show ?thesis by (auto simp: onDocumentClick_def split: if_splits)
next
  case (EmitClose r)
  with assms(1) show ?thesis by (auto simp: emit_onClose_eq onClose_handler_quiet)
next
  case (Fire h)
  with assms(2) show ?thesis by simp
qed (use assms(1) close_length[of P s s'] toggle_length[of P s s'] in auto)

lemma run_length:
  "\<forall>h. Fire h \<notin> set es \<Longrightarrow> run P es s = Some s' \<Longrightarrow> length (instances s') = length (instances s)"
proof (induction es arbitrary: s)
  case Nil
  then show ?case by simp
next
  case (Cons e es)
  then obtain s1 where 1: "step P e s = Some s1" and 2: "run P es s1 = Some s'"
    by (auto split: option.splits)
  from Cons.prems(1) have "\<forall>h. e \<noteq> Fire h" "\<forall>h. Fire h \<notin> set es" by auto
  with step_length[OF 1] Cons.IH[OF _ 2] show ?case by simp
qed

subsection \<open>Evaluation\<close>

lemmas eval_defs = sample_def init_def flag_popup_def open_def close_def toggle_def open_callback_def
  create_popup_def createComponent_def inject_template_def configure_def move_to_body_def
  subscribe_onClose_def update_popup_def popup_def entered_def clearTimeout_def setTimeout_def
  fire_def emit_onClose_def onClose_handler_def destroy_def render_def
  onMouseEnter_def onMouseLeave_def onClick_def onFocus_def onFocusOut_def onDocumentClick_def Let_def

lemmas eval2 = after_def eval_defs

subsection \<open>Behaviour of the directive\<close>

text \<open>
  Claim C1. In every state the directive can reach, and for every configured delay:
  after \<^verbatim>\<open>open()\<close>, any events among which no timeout fires, and \<^verbatim>\<open>close()\<close>, no
  timeout is pending, so the callback of that \<^verbatim>\<open>open()\<close> cannot run, and no component
  has been created; and whatever happens afterwards, for as long as \<^verbatim>\<open>open()\<close> is not
  entered again, no component is created and no timeout is pending.
\<close>

theorem open_then_close_creates_no_instance:
  assumes "run P es0 (init cfg a b doc fresh) = Some s" and "\<forall>h. Fire h \<notin> set es1"
  shows "\<exists>s1. run P (CallOpen # es1 @ [CallClose]) s = Some s1
     \<and> timers s1 = [] \<and> length (instances s1) = length (instances s)
     \<and> (\<forall>es s2. run P es s1 = Some s2 \<and> Open \<notin> set (drop (length (calls s1)) (calls s2))
           \<longrightarrow> timers s2 = [] \<and> length (instances s2) = length (instances s))"
proof -
  obtain t where t: "run P (CallOpen # es1) s = Some t" using run_total by blast
  obtain s1 where s1: "close P t = Some s1" using close_total by blast
  have r: "run P (CallOpen # es1 @ [CallClose]) s = Some s1"
    using t s1 run_append[of P "CallOpen # es1" "[CallClose]" s] by simp
  have "run P (es0 @ CallOpen # es1) (init cfg a b doc fresh) = Some t"
    using assms(1) t by (simp add: run_append)
  from reachable_ok(1)[OF this] have own: "timers_owned (entered Close t)"
    by (simp add: timers_owned_def)
  have t1: "timers s1 = []" using s1 clear_owned[OF own]
    by (auto simp: close_eq split: option.splits)
  have "\<forall>h. Fire h \<notin> set (CallOpen # es1)" using assms(2) by simp
  from run_length[OF this t] close_length[OF s1]
  have l1: "length (instances s1) = length (instances s)" by simp
  have "timers s2 = [] \<and> length (instances s2) = length (instances s)"
    if "run P es s1 = Some s2 \<and> Open \<notin> set (drop (length (calls s1)) (calls s2))" for es s2
    using quiet_run[OF t1, of P es s2] that l1 by simp
  with r t1 l1 show ?thesis by blast
qed

theorem open_then_close_creates_no_instance_witness:
  "run flag_popup (CallOpen # [Elapse 5, Render 1] @ [CallClose]) (sample Hover 100)
      = Some (after [CallOpen, Elapse 5, Render 1, CallClose] (sample Hover 100))
   \<and> timers (after [CallOpen, Elapse 5, Render 1, CallClose] (sample Hover 100)) = []
   \<and> run flag_popup [Elapse 200, Fire 0, Anchor MouseLeave]
        (after [CallOpen, Elapse 5, Render 1, CallClose] (sample Hover 100))
      = Some (after [CallOpen, Elapse 5, Render 1, CallClose, Elapse 200, Fire 0, Anchor MouseLeave]
          (sample Hover 100))
   \<and> calls (after [CallOpen, Elapse 5, Render 1, CallClose] (sample Hover 100)) = [Open, Close]
   \<and> calls (after [CallOpen, Elapse 5, Render 1, CallClose, Elapse 200, Fire 0, Anchor MouseLeave]
        (sample Hover 100)) = [Open, Close, Close]
   \<and> length (instances (after [CallOpen, Elapse 5, Render 1, CallClose, Elapse 200, Fire 0,
        Anchor MouseLeave] (sample Hover 100))) = 0"
proof -
  have h: "run flag_popup [] (init \<lparr>trigger = Hover, delay = 100, template = None\<rparr> 2 1 page 3)
      = Some (sample Hover 100)"
    by (simp add: sample_def)
  have nf: "\<forall>h. Fire h \<notin> set [Elapse 5, Render 1]" by simp
  from open_then_close_creates_no_instance[OF h nf] obtain s1 where
    1: "run flag_popup (CallOpen # [Elapse 5, Render 1] @ [CallClose]) (sample Hover 100) = Some s1"
    and 2: "timers s1 = []"
    and 3: "\<forall>es s2. run flag_popup es s1 = Some s2 \<and> Open \<notin> set (drop (length (calls s1)) (calls s2))
           \<longrightarrow> timers s2 = [] \<and> length (instances s2) = length (instances (sample Hover 100))"
    by blast
  have s1: "s1 = after [CallOpen, Elapse 5, Render 1, CallClose] (sample Hover 100)"
    using 1 by (simp add: after_def)
  let ?s2 = "after [CallOpen, Elapse 5, Render 1, CallClose, Elapse 200, Fire 0, Anchor MouseLeave]
    (sample Hover 100)"
  have r2: "run flag_popup [Elapse 200, Fire 0, Anchor MouseLeave] s1 = Some ?s2"
    unfolding s1 by (simp add: eval2)
  have c1: "calls s1 = [Open, Close]" unfolding s1 by (simp add: eval2)
  have c2: "calls ?s2 = [Open, Close, Close]" by (simp add: eval2)
  have n: "Open \<notin> set (drop (length (calls s1)) (calls ?s2))" using c1 c2 by simp
  have "length (instances ?s2) = length (instances (sample Hover 100))"
    using 3[rule_format, of "[Elapse 200, Fire 0, Anchor MouseLeave]" ?s2] r2 n by blast
  then have "length (instances ?s2) = 0" by (simp add: sample_def init_def)
  with 1 2 r2 c1 c2 s1 show ?thesis by simp
qed

text \<open>
  Claim C2. In every reachable state at most one created component is not destroyed. A
  referenced component is one of the created ones and is not destroyed; and when the
  delayed callback of \<^verbatim>\<open>open()\<close> runs while it is referenced, whether called directly
  or by a due timeout firing, nothing is created: the reference and the number of
  components stay, the internal state of the referenced popup becomes what the popup's
  open transition makes of it, and every other component is as it was.
\<close>

theorem at_most_one_instance:
  assumes "run P es (init cfg a b doc fresh) = Some s"
  shows "(\<forall>i<length (instances s). \<forall>j<length (instances s).
            \<not> destroyed (instances s ! i) \<and> \<not> destroyed (instances s ! j) \<longrightarrow> i = j)
     \<and> (\<forall>r. componentRef s = Some r \<longrightarrow>
            r < length (instances s) \<and> \<not> destroyed (instances s ! r)
            \<and> (\<exists>s'. open_callback P s = Some s'
                  \<and> s' = update_popup r (\<lambda>p. p\<lparr>internal := popup_open P (internal p)\<rparr>) s
                  \<and> componentRef s' = Some r
                  \<and> length (instances s') = length (instances s)
                  \<and> instances s' ! r
                      = (instances s ! r)\<lparr>internal := popup_open P (internal (instances s ! r))\<rparr>
                  \<and> internal (instances s' ! r) = popup_open P (internal (instances s ! r))
                  \<and> (\<forall>i<length (instances s). i \<noteq> r \<longrightarrow> instances s' ! i = instances s ! i))
            \<and> (\<forall>h due. map_of (timers s) h = Some due \<and> due \<le> now s \<longrightarrow>
                  (\<exists>s'. step P (Fire h) s = Some s'
                     \<and> componentRef s' = Some r
                     \<and> length (instances s') = length (instances s)
                     \<and> internal (instances s' ! r) = popup_open P (internal (instances s ! r))
                     \<and> (\<forall>i<length (instances s). i \<noteq> r \<longrightarrow> instances s' ! i = instances s ! i))))"
proof (intro conjI allI impI)
  have ro: "refs_ok s" using reachable_ok(2)[OF assms] .
  fix i j
  assume "i < length (instances s)" "j < length (instances s)"
    "\<not> destroyed (instances s ! i) \<and> \<not> destroyed (instances s ! j)"
  with ro show "i = j" using alive_unique by blast
next
  fix r assume "componentRef s = Some r"
  with reachable_ok(2)[OF assms] show "r < length (instances s)" by (simp add: refs_ok_def)
next
  fix r assume r: "componentRef s = Some r"
  with reachable_ok(2)[OF assms] have "r < length (instances s)" by (simp add: refs_ok_def)
  with reachable_ok(2)[OF assms] r show "\<not> destroyed (instances s ! r)" by (simp add: refs_ok_def)
next
  fix r assume r: "componentRef s = Some r"
  with reachable_ok(2)[OF assms] have rl: "r < length (instances s)" by (simp add: refs_ok_def)
  let ?s' = "update_popup r (\<lambda>p. p\<lparr>internal := popup_open P (internal p)\<rparr>) s"
  have "open_callback P s = Some ?s'" using r by (simp add: open_callback_eq)
  moreover have "instances ?s' ! r
      = (instances s ! r)\<lparr>internal := popup_open P (internal (instances s ! r))\<rparr>"
    using rl by simp
  moreover have "\<forall>i<length (instances s). i \<noteq> r \<longrightarrow> instances ?s' ! i = instances s ! i"
    by simp
  ultimately show "\<exists>s'. open_callback P s = Some s'
                  \<and> s' = update_popup r (\<lambda>p. p\<lparr>internal := popup_open P (internal p)\<rparr>) s
                  \<and> componentRef s' = Some r
                  \<and> length (instances s') = length (instances s)
                  \<and> instances s' ! r
                      = (instances s ! r)\<lparr>internal := popup_open P (internal (instances s ! r))\<rparr>
                  \<and> internal (instances s' ! r) = popup_open P (internal (instances s ! r))
                  \<and> (\<forall>i<length (instances s). i \<noteq> r \<longrightarrow> instances s' ! i = instances s ! i)"
    using r by simp
next
  fix r h due
  assume r: "componentRef s = Some r" and d: "map_of (timers s) h = Some due \<and> due \<le> now s"
  with reachable_ok(2)[OF assms] have rl: "r < length (instances s)" by (simp add: refs_ok_def)
  let ?t = "s\<lparr>timers := filter (\<lambda>x. fst x \<noteq> h) (timers s)\<rparr>"
  let ?s' = "update_popup r (\<lambda>p. p\<lparr>internal := popup_open P (internal p)\<rparr>) ?t"
  have "step P (Fire h) s = Some ?s'" using r d by (simp add: fire_eq open_callback_eq)
  moreover have "internal (instances ?s' ! r) = popup_open P (internal (instances s ! r))"
    using rl by simp
  moreover have "\<forall>i<length (instances s). i \<noteq> r \<longrightarrow> instances ?s' ! i = instances s ! i"
    by simp
  ultimately show "\<exists>s'. step P (Fire h) s = Some s'
                     \<and> componentRef s' = Some r
                     \<and> length (instances s') = length (instances s)
                     \<and> internal (instances s' ! r) = popup_open P (internal (instances s ! r))
                     \<and> (\<forall>i<length (instances s). i \<noteq> r \<longrightarrow> instances s' ! i = instances s ! i)"
    using r by simp
qed

theorem at_most_one_instance_witness:
  "run flag_popup [CallOpen, Fire 0, CallClose, CallOpen] (sample Focus 0)
      = Some (after [CallOpen, Fire 0, CallClose, CallOpen] (sample Focus 0))
   \<and> componentRef (after [CallOpen, Fire 0, CallClose, CallOpen] (sample Focus 0)) = Some 0
   \<and> length (instances (after [CallOpen, Fire 0, CallClose, CallOpen] (sample Focus 0))) = 1
   \<and> \<not> destroyed (instances (after [CallOpen, Fire 0, CallClose, CallOpen] (sample Focus 0)) ! 0)
   \<and> internal (instances (after [CallOpen, Fire 0, CallClose, CallOpen] (sample Focus 0)) ! 0) = False
   \<and> map_of (timers (after [CallOpen, Fire 0, CallClose, CallOpen] (sample Focus 0))) 1 = Some 0
   \<and> now (after [CallOpen, Fire 0, CallClose, CallOpen] (sample Focus 0)) = 0
   \<and> map_option (\<lambda>t. (componentRef t, length (instances t), internal (instances t ! 0)))
         (open_callback flag_popup (after [CallOpen, Fire 0, CallClose, CallOpen] (sample Focus 0)))
       = Some (Some 0, 1, True)
   \<and> map_option (\<lambda>t. (componentRef t, length (instances t), internal (instances t ! 0)))
         (step flag_popup (Fire 1) (after [CallOpen, Fire 0, CallClose, CallOpen] (sample Focus 0)))
       = Some (Some 0, 1, True)"
proof -
  let ?s = "after [CallOpen, Fire 0, CallClose, CallOpen] (sample Focus 0)"
  have h: "run flag_popup [CallOpen, Fire 0, CallClose, CallOpen]
      (init \<lparr>trigger = Focus, delay = 0, template = None\<rparr> 2 1 page 3) = Some ?s"
    by (simp add: eval2)
  have f: "componentRef ?s = Some 0" "length (instances ?s) = 1" "\<not> destroyed (instances ?s ! 0)"
    "internal (instances ?s ! 0) = False" "map_of (timers ?s) 1 = Some 0" "now ?s = 0"
    by (simp_all add: eval2)
  have d: "map_of (timers ?s) 1 = Some 0 \<and> 0 \<le> now ?s" using f by simp
  from at_most_one_instance[OF h] f(1) obtain s' where
    1: "open_callback flag_popup ?s = Some s'" and 2: "componentRef s' = Some 0"
    and 3: "length (instances s') = length (instances ?s)"
    and 4: "internal (instances s' ! 0) = popup_open flag_popup (internal (instances ?s ! 0))"
    by blast
  from at_most_one_instance[OF h] f(1) d obtain s'' where
    5: "step flag_popup (Fire 1) ?s = Some s''" and 6: "componentRef s'' = Some 0"
    and 7: "length (instances s'') = length (instances ?s)"
    and 8: "internal (instances s'' ! 0) = popup_open flag_popup (internal (instances ?s ! 0))"
    by blast
  have po: "popup_open flag_popup False = True" by (simp add: flag_popup_def)
  from h f 1 2 3 4 5 6 7 8 po show ?thesis by (simp add: sample_def)
qed

text \<open>
  Claim C3. In every reachable state each created component has exactly one handler
  subscribed to \<^verbatim>\<open>onClose\<close>, however often \<^verbatim>\<open>open()\<close> was called. When the referenced
  popup emits \<^verbatim>\<open>onClose\<close>, the component is destroyed, its element leaves the document
  and the reference is cleared. An \<^verbatim>\<open>open()\<close> after that, once its timeout has run,
  references a component created anew: a reference different from the old one, not
  destroyed, with one handler of its own.
\<close>

theorem close_completion_clears_and_next_open_is_new:
  assumes "run P es (init cfg a b doc fresh) = Some s" and "componentRef s = Some r"
  shows "(\<forall>i<length (instances s). onClose (instances s ! i) = Suc 0)
     \<and> (\<exists>s1 s2. step P (EmitClose r) s = Some s1
           \<and> componentRef s1 = None
           \<and> destroyed (instances s1 ! r)
           \<and> parent s1 (nativeElement (instances s ! r)) = None
           \<and> length (instances s1) = length (instances s)
           \<and> run P [CallOpen, Elapse (delay (popupConfig s1)), Fire (nextTimer s1)] s1 = Some s2
           \<and> componentRef s2 = Some (length (instances s))
           \<and> length (instances s) \<noteq> r
           \<and> length (instances s2) = Suc (length (instances s))
           \<and> \<not> destroyed (instances s2 ! length (instances s))
           \<and> onClose (instances s2 ! length (instances s)) = Suc 0)"
proof
  have ro: "refs_ok s" and ow: "timers_owned s" using reachable_ok[OF assms(1)] by simp_all
  from ro show "\<forall>i<length (instances s). onClose (instances s ! i) = Suc 0" by (simp add: refs_ok_def)
  from ro assms(2) have rl: "r < length (instances s)" and h1: "onClose (instances s ! r) = Suc 0"
    by (simp_all add: refs_ok_def)
  let ?s1 = "onClose_handler s"
  have e: "step P (EmitClose r) s = Some ?s1" using rl h1 by (simp add: emit_onClose_eq)
  have f1: "componentRef ?s1 = None" "destroyed (instances ?s1 ! r)"
    "parent ?s1 (nativeElement (instances s ! r)) = None" "length (instances ?s1) = length (instances s)"
    using assms(2) rl by (simp_all add: onClose_handler_eq)
  have ow1: "timers_owned ?s1" using ow by (rule timers_owned_handler)
  let ?h = "nextTimer ?s1"
  let ?t = "(open ?s1)\<lparr>now := now (open ?s1) + delay (popupConfig ?s1)\<rparr>"
  have tt: "timers ?t = [(?h, now ?s1 + delay (popupConfig ?s1))]" using open_timers[OF ow1] by simp
  let ?u = "?t\<lparr>timers := filter (\<lambda>x. fst x \<noteq> ?h) (timers ?t)\<rparr>"
  have cu: "componentRef ?u = None" using f1(1) by simp
  let ?s2 = "update_popup (length (instances ?u)) (\<lambda>p. p\<lparr>internal := popup_open P (internal p)\<rparr>)
          (create_popup P ?u)"
  have fire: "fire P ?h ?t = Some ?s2"
    unfolding fire_eq using tt cu by (simp add: open_callback_eq)
  have r2: "run P [CallOpen, Elapse (delay (popupConfig ?s1)), Fire ?h] ?s1 = Some ?s2"
    using fire by simp
  have lu: "length (instances ?u) = length (instances s)" using f1(4) by simp
  have f2: "componentRef ?s2 = Some (length (instances s))"
    "length (instances ?s2) = Suc (length (instances s))"
    "\<not> destroyed (instances ?s2 ! length (instances s))"
    "onClose (instances ?s2 ! length (instances s)) = Suc 0"
    using lu by (simp_all add: create_popup_fields create_popup_instances nth_append)
  from e f1 r2 f2 rl
  show "\<exists>s1 s2. step P (EmitClose r) s = Some s1
           \<and> componentRef s1 = None
           \<and> destroyed (instances s1 ! r)
           \<and> parent s1 (nativeElement (instances s ! r)) = None
           \<and> length (instances s1) = length (instances s)
           \<and> run P [CallOpen, Elapse (delay (popupConfig s1)), Fire (nextTimer s1)] s1 = Some s2
           \<and> componentRef s2 = Some (length (instances s))
           \<and> length (instances s) \<noteq> r
           \<and> length (instances s2) = Suc (length (instances s))
           \<and> \<not> destroyed (instances s2 ! length (instances s))
           \<and> onClose (instances s2 ! length (instances s)) = Suc 0"
    by (intro exI[of _ ?s1] exI[of _ ?s2]) simp
qed

theorem close_completion_clears_and_next_open_is_new_witness:
  "run flag_popup [CallOpen, Fire 0] (sample Focus 0) = Some (after [CallOpen, Fire 0] (sample Focus 0))
   \<and> componentRef (after [CallOpen, Fire 0] (sample Focus 0)) = Some 0
   \<and> onClose (instances (after [CallOpen, Fire 0] (sample Focus 0)) ! 0) = Suc 0
   \<and> componentRef (after [CallOpen, Fire 0, EmitClose 0] (sample Focus 0)) = None
   \<and> destroyed (instances (after [CallOpen, Fire 0, EmitClose 0] (sample Focus 0)) ! 0)
   \<and> componentRef (after [CallOpen, Fire 0, EmitClose 0, CallOpen, Elapse 0, Fire 1] (sample Focus 0)) = Some 1
   \<and> length (instances (after [CallOpen, Fire 0, EmitClose 0, CallOpen, Elapse 0, Fire 1] (sample Focus 0))) = 2"
proof -
  let ?s = "after [CallOpen, Fire 0] (sample Focus 0)"
  have h: "run flag_popup [CallOpen, Fire 0] (init \<lparr>trigger = Focus, delay = 0, template = None\<rparr> 2 1 page 3)
      = Some ?s"
    by (simp add: eval2)
  have r: "componentRef ?s = Some 0" by (simp add: eval2)
  from close_completion_clears_and_next_open_is_new[OF h r] have "onClose (instances ?s ! 0) = Suc 0" by (simp add: eval2)
  with h r show ?thesis by (simp add: eval2)
qed

text \<open>
  Claim C4. For every trigger mode and each of the five events of the anchor, the
  listener bound to the event does what the trigger table of the specification says:
  it calls \<^verbatim>\<open>open()\<close>, \<^verbatim>\<open>close()\<close> or \<^verbatim>\<open>toggle()\<close> where the table names that method,
  and leaves the state untouched, calling nothing, where the table has no entry.
\<close>

theorem listener_follows_trigger_policy: "listener P i s = invoke P (spec_trigger_policy (trigger (popupConfig s)) i) s"
  by (cases i; cases "trigger (popupConfig s)")
     (simp_all add: invoke_def onMouseEnter_def onMouseLeave_def onClick_def onFocus_def onFocusOut_def)

theorem listener_follows_trigger_policy_witness:
  "listener flag_popup MouseEnter (sample Hover 0) = Some (open (sample Hover 0))
   \<and> listener flag_popup MouseEnter (sample Focus 0) = Some (sample Focus 0)
   \<and> listener flag_popup AnchorClick (sample OutsideClick 0) = toggle flag_popup (sample OutsideClick 0)
   \<and> listener flag_popup FocusOut (sample Manual 0) = Some (sample Manual 0)"
  using listener_follows_trigger_policy[of flag_popup MouseEnter "sample Hover 0"] listener_follows_trigger_policy[of flag_popup MouseEnter "sample Focus 0"]
    listener_follows_trigger_policy[of flag_popup AnchorClick "sample OutsideClick 0"] listener_follows_trigger_policy[of flag_popup FocusOut "sample Manual 0"]
  by (simp add: invoke_def sample_def init_def)

text \<open>
  Claim C5. A click anywhere in the document enters \<^verbatim>\<open>close()\<close>, once, when the trigger
  mode is OutsideClick, a component is referenced and the anchor does not contain the
  click's target; in every other case it changes nothing and calls nothing.
\<close>

theorem document_click_closes_iff_outside:
  "\<exists>s'. onDocumentClick P target s = Some s' \<and>
     (if trigger (popupConfig s) = OutsideClick \<and> componentRef s \<noteq> None
          \<and> \<not> contains (parent s) (element s) target
      then close P s = Some s' \<and> calls s' = calls s @ [Close]
      else s' = s)"
  using close_total[of P s] close_calls[of P s]
  by (auto simp: onDocumentClick_def)

theorem document_click_closes_iff_outside_witness:
  "componentRef (after [CallOpen, Fire 0] (sample OutsideClick 0)) = Some 0
   \<and> contains (parent (after [CallOpen, Fire 0] (sample OutsideClick 0))) 2 2
   \<and> onDocumentClick flag_popup 2 (after [CallOpen, Fire 0] (sample OutsideClick 0))
       = Some (after [CallOpen, Fire 0] (sample OutsideClick 0))
   \<and> \<not> contains (parent (after [CallOpen, Fire 0] (sample OutsideClick 0))) 2 0
   \<and> onDocumentClick flag_popup 0 (after [CallOpen, Fire 0] (sample OutsideClick 0))
       = close flag_popup (after [CallOpen, Fire 0] (sample OutsideClick 0))
   \<and> map_option calls (onDocumentClick flag_popup 0 (after [CallOpen, Fire 0] (sample OutsideClick 0)))
       = Some [Open, Close]"
proof -
  let ?s = "after [CallOpen, Fire 0] (sample OutsideClick 0)"
  have f: "componentRef ?s = Some 0" "trigger (popupConfig ?s) = OutsideClick" "element ?s = 2"
    "calls ?s = [Open]" "parent ?s 0 = None"
    by (simp_all add: eval2 page_def)
  have in2: "contains (parent ?s) 2 2" by (rule contains_self)
  have out0: "\<not> contains (parent ?s) 2 0" using f(5) by (simp add: contains.simps[of _ 2 0])
  from document_click_closes_iff_outside[of flag_popup 2 ?s] document_click_closes_iff_outside[of flag_popup 0 ?s] f in2 out0
  show ?thesis by auto
qed

text \<open>
  Claim C6. In every state \<^verbatim>\<open>toggle()\<close> leaves what \<^verbatim>\<open>open()\<close> leaves when no component
  is referenced or the referenced popup reports not open, and what \<^verbatim>\<open>close()\<close> leaves
  otherwise; only the call history differs, by the entry for \<^verbatim>\<open>toggle()\<close> itself.
\<close>

theorem toggle_is_open_or_close:
  "toggle P s =
     (if componentRef s = None \<or> \<not> isOpen P (internal (instances s ! the (componentRef s)))
      then Some ((open s)\<lparr>calls := calls s @ [Toggle, Open]\<rparr>)
      else map_option (\<lambda>t. t\<lparr>calls := calls s @ [Toggle, Close]\<rparr>) (close P s))"
  by (simp add: toggle_eq open_entered close_entered)

theorem toggle_is_open_or_close_witness:
  "componentRef (sample Click 0) = None
   \<and> toggle flag_popup (sample Click 0) = Some ((open (sample Click 0))\<lparr>calls := [Toggle, Open]\<rparr>)
   \<and> componentRef (after [CallOpen, Fire 0] (sample Click 0)) = Some 0
   \<and> isOpen flag_popup (internal (instances (after [CallOpen, Fire 0] (sample Click 0)) ! 0))
   \<and> toggle flag_popup (after [CallOpen, Fire 0] (sample Click 0))
       = map_option (\<lambda>t. t\<lparr>calls := [Open, Toggle, Close]\<rparr>)
           (close flag_popup (after [CallOpen, Fire 0] (sample Click 0)))"
proof -
  let ?s = "after [CallOpen, Fire 0] (sample Click 0)"
  have f: "componentRef (sample Click 0) = None" "componentRef ?s = Some 0"
    "isOpen flag_popup (internal (instances ?s ! 0))" "calls ?s = [Open]" "calls (sample Click 0) = []"
    by (simp_all add: eval2)
  from toggle_is_open_or_close[of flag_popup "sample Click 0"] toggle_is_open_or_close[of flag_popup ?s] f show ?thesis by simp
qed

text \<open>
  Claim C9. In every reachable state \<^verbatim>\<open>close()\<close> returns without throwing and leaves no
  timeout pending. With no component referenced that is all it does, apart from its entry
  in the call history. With a component referenced, which is then one of the created
  ones, the internal state of that popup becomes what the popup's close transition makes
  of it, and nothing more happens: the component stays referenced, is not destroyed, its
  element stays in the document, and every other component is as it was.
\<close>

theorem close_without_instance_only_cancels:
  assumes "run P es (init cfg a b doc fresh) = Some s"
  shows "\<exists>s'. close P s = Some s' \<and> timers s' = [] \<and>
     (case componentRef s of
        None \<Rightarrow> s' = s\<lparr>timers := [], calls := calls s @ [Close]\<rparr>
      | Some r \<Rightarrow>
          s' = update_popup r (\<lambda>p. p\<lparr>internal := popup_close P (internal p)\<rparr>)
                 (s\<lparr>timers := [], calls := calls s @ [Close]\<rparr>)
          \<and> r < length (instances s)
          \<and> componentRef s' = Some r
          \<and> length (instances s') = length (instances s)
          \<and> instances s' ! r
              = (instances s ! r)\<lparr>internal := popup_close P (internal (instances s ! r))\<rparr>
          \<and> internal (instances s' ! r) = popup_close P (internal (instances s ! r))
          \<and> (\<forall>i<length (instances s). i \<noteq> r \<longrightarrow> instances s' ! i = instances s ! i)
          \<and> destroyed (instances s' ! r) = destroyed (instances s ! r)
          \<and> \<not> destroyed (instances s' ! r)
          \<and> parent s' = parent s)"
proof -
  let ?s0 = "clearTimeout (openingTimeout s) (entered Close s)"
  have own: "timers_owned (entered Close s)" using reachable_ok(1)[OF assms]
    by (simp add: timers_owned_def)
  have ro: "refs_ok s" using reachable_ok(2)[OF assms] .
  have t0: "timers ?s0 = []" using clear_owned[OF own] by simp
  have s0: "?s0 = s\<lparr>timers := [], calls := calls s @ [Close]\<rparr>"
    using t0 by (cases "openingTimeout s") (simp_all add: clearTimeout_def entered_def)
  show ?thesis
  proof (cases "componentRef s")
    case None
    then show ?thesis using s0 by (simp add: close_eq)
  next
    case (Some r)
    with ro have "r < length (instances s)" "\<not> destroyed (instances s ! r)"
      by (simp_all add: refs_ok_def)
    with Some show ?thesis using s0 by (simp add: close_eq)
  qed
qed

theorem close_without_instance_only_cancels_witness:
  "run flag_popup [CallOpen] (sample Focus 7) = Some (after [CallOpen] (sample Focus 7))
   \<and> timers (after [CallOpen] (sample Focus 7)) = [(0, 7)]
   \<and> componentRef (after [CallOpen] (sample Focus 7)) = None
   \<and> close flag_popup (after [CallOpen] (sample Focus 7))
       = Some ((after [CallOpen] (sample Focus 7))\<lparr>timers := [], calls := [Open, Close]\<rparr>)
   \<and> run flag_popup [CallOpen, Elapse 7, Fire 0, CallOpen] (sample Focus 7)
       = Some (after [CallOpen, Elapse 7, Fire 0, CallOpen] (sample Focus 7))
   \<and> componentRef (after [CallOpen, Elapse 7, Fire 0, CallOpen] (sample Focus 7)) = Some 0
   \<and> timers (after [CallOpen, Elapse 7, Fire 0, CallOpen] (sample Focus 7)) = [(1, 14)]
   \<and> internal (instances (after [CallOpen, Elapse 7, Fire 0, CallOpen] (sample Focus 7)) ! 0) = True
   \<and> map_option (\<lambda>t. (componentRef t, timers t, length (instances t), internal (instances t ! 0),
           destroyed (instances t ! 0)))
         (close flag_popup (after [CallOpen, Elapse 7, Fire 0, CallOpen] (sample Focus 7)))
       = Some (Some 0, [], 1, False, False)"
proof -
  let ?s = "after [CallOpen] (sample Focus 7)"
  let ?u = "after [CallOpen, Elapse 7, Fire 0, CallOpen] (sample Focus 7)"
  let ?cfg = "\<lparr>trigger = Focus, delay = 7, template = None\<rparr>"
  have h: "run flag_popup [CallOpen] (init ?cfg 2 1 page 3) = Some ?s"
    by (simp add: eval2)
  have f: "timers ?s = [(0, 7)]" "componentRef ?s = None" "calls ?s = [Open]"
    by (simp_all add: eval2)
  have hu: "run flag_popup [CallOpen, Elapse 7, Fire 0, CallOpen] (init ?cfg 2 1 page 3) = Some ?u"
    by (simp add: eval2)
  have g: "componentRef ?u = Some 0" "timers ?u = [(1, 14)]" "internal (instances ?u ! 0) = True"
    "length (instances ?u) = 1"
    by (simp_all add: eval2)
  from close_without_instance_only_cancels[OF h] f have 1: "close flag_popup ?s = Some (?s\<lparr>timers := [], calls := [Open, Close]\<rparr>)"
    by auto
  from close_without_instance_only_cancels[OF hu] g(1) obtain u' where
    2: "close flag_popup ?u = Some u'" and 3: "timers u' = []" and 4: "componentRef u' = Some 0"
    and 5: "length (instances u') = length (instances ?u)"
    and 6: "internal (instances u' ! 0) = popup_close flag_popup (internal (instances ?u ! 0))"
    and 7: "\<not> destroyed (instances u' ! 0)"
    by auto
  have pc: "popup_close flag_popup True = False" by (simp add: flag_popup_def)
  from h hu f g 1 2 3 4 5 6 7 pc show ?thesis by (simp add: sample_def)
qed

text \<open>
  Claim C10. Take a directive whose trigger mode is OutsideClick, on a page where the
  anchor does not contain the body. In every reachable state with a component referenced,
  the component's element is a child of the body, the anchor contains no element that the
  component's element contains, and so a document click whose target is inside the popup
  enters \<^verbatim>\<open>close()\<close>: the containment test looks at the anchor alone.
\<close>

theorem click_inside_popup_closes:
  assumes reach: "run P es (init cfg a b doc fresh) = Some s"
    and old: "a < fresh" "b < fresh" "\<forall>x<fresh. \<forall>y. doc x = Some y \<longrightarrow> y < fresh"
    and outside: "\<not> contains doc a b"
    and oc: "trigger cfg = OutsideClick"
    and ref: "componentRef s = Some r"
    and inside: "contains (parent s) (nativeElement (instances s ! r)) target"
  shows "parent s (nativeElement (instances s ! r)) = Some b
     \<and> \<not> contains (parent s) (element s) target
     \<and> (\<exists>s'. onDocumentClick P target s = Some s' \<and> close P s = Some s'
            \<and> calls s' = calls s @ [Close])"
proof -
  let ?el = "nativeElement (instances s ! r)"
  have d: "dom_ok fresh doc s" and f: "frame cfg a b s" using reachable_dom[OF reach] by simp_all
  from d ref have rl: "r < length (instances s)" and pb: "parent s ?el = Some (body s)"
    by (simp_all add: dom_ok_def)
  from d rl have new: "fresh \<le> ?el" by (simp add: dom_ok_def)
  from d have same: "\<forall>x<fresh. parent s x = doc x" by (simp add: dom_ok_def)
  from f have fr: "popupConfig s = cfg" "element s = a" "body s = b" by (simp_all add: frame_def)
  have nc: "\<not> contains (parent s) a target"
  proof
    assume "contains (parent s) a target"
    from contains_linear[OF this inside]
    show False
    proof
      assume "contains (parent s) a ?el"
      then show False
      proof (cases rule: contains.cases)
        case contains_self
        with new old(1) show False by simp
      next
        case (contains_parent p)
        with pb fr(3) have "contains (parent s) a b" by simp
        from contains_old[OF old(3) same this old(2)] outside show False by simp
      qed
    next
      assume "contains (parent s) ?el a"
      from contains_old[OF old(3) same this old(1)] new show False by simp
    qed
  qed
  obtain s' where c: "close P s = Some s'" using close_total by blast
  have "onDocumentClick P target s = Some s'"
    using c nc ref oc fr by (simp add: onDocumentClick_def)
  with c close_calls[OF c] pb fr nc show ?thesis by simp
qed

theorem click_inside_popup_closes_witness:
  "run flag_popup [Anchor AnchorClick, Fire 0, Render 3] (sample OutsideClick 0)
      = Some (after [Anchor AnchorClick, Fire 0, Render 3] (sample OutsideClick 0))
   \<and> \<not> contains page 2 1
   \<and> componentRef (after [Anchor AnchorClick, Fire 0, Render 3] (sample OutsideClick 0)) = Some 0
   \<and> nativeElement (instances (after [Anchor AnchorClick, Fire 0, Render 3] (sample OutsideClick 0)) ! 0) = 3
   \<and> contains (parent (after [Anchor AnchorClick, Fire 0, Render 3] (sample OutsideClick 0))) 3 4
   \<and> parent (after [Anchor AnchorClick, Fire 0, Render 3] (sample OutsideClick 0)) 3 = Some 1
   \<and> \<not> contains (parent (after [Anchor AnchorClick, Fire 0, Render 3] (sample OutsideClick 0))) 2 4
   \<and> map_option calls (onDocumentClick flag_popup 4
         (after [Anchor AnchorClick, Fire 0, Render 3] (sample OutsideClick 0)))
       = Some [Toggle, Open, Close]"
proof -
  let ?s = "after [Anchor AnchorClick, Fire 0, Render 3] (sample OutsideClick 0)"
  let ?cfg = "\<lparr>trigger = OutsideClick, delay = 0, template = None\<rparr>"
  have h: "run flag_popup [Anchor AnchorClick, Fire 0, Render 3] (init ?cfg 2 1 page 3) = Some ?s"
    by (simp add: eval2)
  have f: "componentRef ?s = Some 0" "nativeElement (instances ?s ! 0) = 3" "parent ?s 4 = Some 3"
    "calls ?s = [Toggle, Open]" "element ?s = 2"
    by (simp_all add: eval2)
  have old: "\<forall>x<3. \<forall>y. page x = Some y \<longrightarrow> y < 3" by (simp add: page_def)
  have "\<not> contains page 2 0" using contains.simps[of page 2 0] by (simp add: page_def)
  then have nb: "\<not> contains page 2 1" using contains.simps[of page 2 1] by (simp add: page_def)
  have ins: "contains (parent ?s) (nativeElement (instances ?s ! 0)) 4"
    unfolding f(2) by (rule contains_parent[of "parent ?s" 4 3 3, OF f(3) contains_self])
  have lt: "(2::nat) < 3" "(1::nat) < 3" and tr: "trigger ?cfg = OutsideClick" by simp_all
  from click_inside_popup_closes[OF h lt old nb tr f(1) ins] f h nb ins
  show ?thesis by (auto simp: sample_def)
qed

end

